theory Spec2Isabelle
  imports Complex_Main "HOL-Library.Word"
begin

unbundle bit_operations_syntax

section \<open>Machine types\<close>

type_synonym u8 = "8 word"
type_synonym u16 = "16 word"
type_synonym u32 = "32 word"

section \<open>Static test video source (test-source.c)\<close>

text \<open>
  \<^verbatim>\<open>struct v4l2_pix_format\<close> as the repository uses it: the fields that
  \<^verbatim>\<open>uvc_events_process_data\<close> sets after its \<^verbatim>\<open>memset\<close>, all
  \<^verbatim>\<open>__u32\<close>.
\<close>

record v4l2_pix_format =
  pix_width :: u32
  pix_height :: u32
  pix_pixelformat :: u32
  pix_field :: u32
  pix_sizeimage :: u32

text \<open>
  \<^verbatim>\<open>v4l2_fourcc(a, b, c, d)\<close> of \<^verbatim>\<open>linux/videodev2.h\<close>:
  \<^verbatim>\<open>a | (b << 8) | (c << 16) | (d << 24)\<close> on 32-bit unsigned values.
\<close>

definition v4l2_fourcc :: "u8 \<Rightarrow> u8 \<Rightarrow> u8 \<Rightarrow> u8 \<Rightarrow> u32" where
  "v4l2_fourcc a b c d =
     ucast a OR push_bit 8 (ucast b) OR push_bit 16 (ucast c) OR push_bit 24 (ucast d)"

text \<open>\<^verbatim>\<open>'Y' 'U' 'Y' 'V'\<close> are the bytes 0x59 0x55 0x59 0x56, \<^verbatim>\<open>'M' 'J' 'P' 'G'\<close> are 0x4d 0x4a 0x50 0x47.\<close>

definition V4L2_PIX_FMT_YUYV :: u32 where
  "V4L2_PIX_FMT_YUYV = v4l2_fourcc 0x59 0x55 0x59 0x56"

definition V4L2_PIX_FMT_MJPEG :: u32 where
  "V4L2_PIX_FMT_MJPEG = v4l2_fourcc 0x4d 0x4a 0x50 0x47"

definition EINVAL :: int where
  "EINVAL = 22"

text \<open>\<^verbatim>\<open>struct test_source\<close> without its embedded \<^verbatim>\<open>struct video_source\<close>.\<close>

record test_source =
  ts_width :: u32
  ts_height :: u32
  ts_pixelformat :: u32

text \<open>
  \<^verbatim>\<open>test_source_set_format\<close>: the three stores come first, the FourCC test second.
  The result pairs the returned \<^verbatim>\<open>int\<close> with the source as the call leaves it.
\<close>

definition test_source_set_format :: "test_source \<Rightarrow> v4l2_pix_format \<Rightarrow> int \<times> test_source" where
  "test_source_set_format src fmt =
     (let src1 = src\<lparr>ts_width := pix_width fmt\<rparr>;
          src2 = src1\<lparr>ts_height := pix_height fmt\<rparr>;
          src3 = src2\<lparr>ts_pixelformat := pix_pixelformat fmt\<rparr>
      in if ts_pixelformat src3 \<noteq> v4l2_fourcc 0x59 0x55 0x59 0x56 then (- EINVAL, src3)
         else (0, src3))"

section \<open>Function configuration (configfs.h)\<close>

text \<open>
  Modelled from the spec: the declarations of \<^verbatim>\<open>struct uvc_function_config\<close> and its
  parts (configfs.h) are not among the sources. The spec's data model gives an ordered
  list of formats, each with a FourCC and an ordered list of frames, each frame with
  width, height and an ordered list of intervals, plus the streaming endpoint's
  \<^verbatim>\<open>wMaxPacketSize\<close> and the two interface numbers. \<^verbatim>\<open>uvc.c\<close> reads every
  one of them as \<^verbatim>\<open>unsigned int\<close> and reaches the lists through a count field and a
  pointer; the record keeps both, the pointer's array as a list.
\<close>

record uvc_function_config_frame =
  width :: u32
  height :: u32
  num_intervals :: u32
  intervals :: "u32 list"

record uvc_function_config_format =
  fcc :: u32
  num_frames :: u32
  frames :: "uvc_function_config_frame list"

record uvc_function_config =
  control_bInterfaceNumber :: u32
  streaming_bInterfaceNumber :: u32
  streaming_wMaxPacketSize :: u32
  num_formats :: u32
  formats :: "uvc_function_config_format list"

text \<open>
  \<^verbatim>\<open>p[i]\<close> on an array of \<open>length xs\<close> elements. An index outside the array is
  undefined behaviour in C: the model gives \<open>None\<close> and every caller passes it on.
\<close>

definition array_read :: "'a list \<Rightarrow> int \<Rightarrow> 'a option" where
  "array_read xs i = (if 0 \<le> i \<and> i < int (length xs) then Some (xs ! nat i) else None)"

text \<open>
  Modelled from the spec: the \<^verbatim>\<open>clamp\<close> macro (tools.h) is not among the sources.
  The spec calls it an unsigned clamp into \<open>[lo, hi]\<close>; all three operands are
  \<^verbatim>\<open>unsigned int\<close> at both uses. The value is first raised to the lower bound and
  then cut at the upper one. The comment of lines 143 to 147 says the same of negative
  arguments: they select the maximum valid value.
\<close>

definition clamp :: "u32 \<Rightarrow> u32 \<Rightarrow> u32 \<Rightarrow> u32" where
  "clamp val lo hi = (let v = (if val < lo then lo else val) in if v > hi then hi else v)"

section \<open>Streaming control block (linux/usb/video.h)\<close>

text \<open>
  \<^verbatim>\<open>struct uvc_streaming_control\<close>, packed, 34 bytes: the kernel's declaration, in
  its field order and widths.
\<close>

record uvc_streaming_control =
  bmHint :: u16
  bFormatIndex :: u8
  bFrameIndex :: u8
  dwFrameInterval :: u32
  wKeyFrameRate :: u16
  wPFrameRate :: u16
  wCompQuality :: u16
  wCompWindowSize :: u16
  wDelay :: u16
  dwMaxVideoFrameSize :: u32
  dwMaxPayloadTransferSize :: u32
  dwClockFrequency :: u32
  bmFramingInfo :: u8
  bPreferedVersion :: u8
  bMinVersion :: u8
  bMaxVersion :: u8

text \<open>The block after \<^verbatim>\<open>memset(ctrl, 0, sizeof *ctrl)\<close>.\<close>

definition zero_ctrl :: uvc_streaming_control where
  "zero_ctrl = \<lparr>bmHint = 0, bFormatIndex = 0, bFrameIndex = 0, dwFrameInterval = 0,
     wKeyFrameRate = 0, wPFrameRate = 0, wCompQuality = 0, wCompWindowSize = 0, wDelay = 0,
     dwMaxVideoFrameSize = 0, dwMaxPayloadTransferSize = 0, dwClockFrequency = 0,
     bmFramingInfo = 0, bPreferedVersion = 0, bMinVersion = 0, bMaxVersion = 0\<rparr>"

section \<open>The fill algorithm (uvc\_fill\_streaming\_control)\<close>

text \<open>
  The \<^verbatim>\<open>for\<close> loop of lines 154 to 161, from index \<open>i\<close> on. It returns the loop
  counter and \<^verbatim>\<open>ival\<close> as the loop leaves them: at the \<^verbatim>\<open>break\<close> the counter is
  the index of the entry taken, at a normal exit it is \<^verbatim>\<open>num_intervals\<close>.
\<close>

function interval_loop :: "uvc_function_config_frame \<Rightarrow> u32 \<Rightarrow> u32 \<Rightarrow> (u32 \<times> u32) option" where
  "interval_loop frame i ival =
     (if i < num_intervals frame then
        (case array_read (intervals frame) (uint i) of
           None \<Rightarrow> None
         | Some x \<Rightarrow> if ival \<le> x then Some (i, x) else interval_loop frame (i + 1) ival)
      else Some (i, ival))"
  by pat_completeness auto
termination
proof (relation "measure (\<lambda>(frame, i, ival). unat (num_intervals frame) - unat i)")
  show "wf (measure (\<lambda>(frame, i, ival). unat (num_intervals frame) - unat i))"
    by simp
next
  fix frame :: uvc_function_config_frame and i ival x2 :: u32
  assume lt: "i < num_intervals frame"
  then have "i + 1 \<noteq> 0"
    by (metis add.commute add.right_inverse add_left_cancel word_order.extremum_strict)
  then have "unat (i + 1) = Suc (unat i)"
    by (simp add: unatSuc add.commute)
  moreover from lt have "unat i < unat (num_intervals frame)"
    by (simp add: word_less_nat_alt)
  ultimately show "((frame, i + 1, ival), (frame, i, ival))
      \<in> measure (\<lambda>(frame, i, ival). unat (num_intervals frame) - unat i)"
    by simp
qed

text \<open>
  Lines 154 to 164: the loop from 0, then the fallback to the last entry,
  \<^verbatim>\<open>intervals[num_intervals-1]\<close> with the subtraction in \<^verbatim>\<open>unsigned int\<close>.
\<close>

definition select_interval :: "uvc_function_config_frame \<Rightarrow> u32 \<Rightarrow> u32 option" where
  "select_interval frame ival =
     (case interval_loop frame 0 ival of
        None \<Rightarrow> None
      | Some (i, ival1) \<Rightarrow>
          if i = num_intervals frame
          then array_read (intervals frame) (uint (num_intervals frame - 1))
          else Some ival1)"

text \<open>
  \<^verbatim>\<open>uvc_fill_streaming_control\<close>. The \<^verbatim>\<open>int\<close> parameters \<^verbatim>\<open>iformat\<close> and
  \<^verbatim>\<open>iframe\<close> are 32-bit two's complement patterns: the cast to
  \<^verbatim>\<open>unsigned int\<close> and the assignment of the clamped value back keep the bits, and
  the index \<^verbatim>\<open>iformat-1\<close> reads them signed. The stores into the 8-bit fields
  \<^verbatim>\<open>bFormatIndex\<close> and \<^verbatim>\<open>bFrameIndex\<close> keep the low byte. The product for
  \<^verbatim>\<open>dwMaxVideoFrameSize\<close> is an \<^verbatim>\<open>unsigned int\<close> product. \<open>None\<close> is an
  array access outside the configuration's arrays.
\<close>

definition uvc_fill_streaming_control ::
  "uvc_function_config \<Rightarrow> u32 \<Rightarrow> u32 \<Rightarrow> u32 \<Rightarrow> uvc_streaming_control option" where
  "uvc_fill_streaming_control cfg iformat iframe ival =
     (let iformat1 = clamp iformat 1 (num_formats cfg) in
      case array_read (formats cfg) (sint iformat1 - 1) of
        None \<Rightarrow> None
      | Some format \<Rightarrow>
          (let iframe1 = clamp iframe 1 (num_frames format) in
           case array_read (frames format) (sint iframe1 - 1) of
             None \<Rightarrow> None
           | Some frame \<Rightarrow>
               (case select_interval frame ival of
                  None \<Rightarrow> None
                | Some ival1 \<Rightarrow>
                    (let ctrl1 = zero_ctrl\<lparr>bmHint := 1, bFormatIndex := ucast iformat1,
                                   bFrameIndex := ucast iframe1, dwFrameInterval := ival1\<rparr>;
                         ctrl2 = (if fcc format = V4L2_PIX_FMT_YUYV \<or> fcc format = V4L2_PIX_FMT_MJPEG
                                  then ctrl1\<lparr>dwMaxVideoFrameSize := width frame * height frame * 2\<rparr>
                                  else ctrl1)
                     in Some (ctrl2\<lparr>dwMaxPayloadTransferSize := streaming_wMaxPacketSize cfg,
                                bmFramingInfo := 3, bPreferedVersion := 1, bMaxVersion := 1\<rparr>)))))"


text \<open>
  The format and the frame that lines 148 to 152 select, as
  \<^verbatim>\<open>uvc_fill_streaming_control\<close> reads them.
\<close>

definition selected_format :: "uvc_function_config \<Rightarrow> u32 \<Rightarrow> uvc_function_config_format option" where
  "selected_format cfg iformat =
     array_read (formats cfg) (sint (clamp iformat 1 (num_formats cfg)) - 1)"

definition selected_frame ::
  "uvc_function_config \<Rightarrow> u32 \<Rightarrow> u32 \<Rightarrow> uvc_function_config_frame option" where
  "selected_frame cfg iformat iframe =
     (case selected_format cfg iformat of
        None \<Rightarrow> None
      | Some format \<Rightarrow> array_read (frames format) (sint (clamp iframe 1 (num_frames format)) - 1))"

declare interval_loop.simps [simp del]

section \<open>Double-precision arithmetic of the frame-rate computation\<close>

text \<open>
  Line 405 computes \<^verbatim>\<open>fps = 1.0 / (target->dwFrameInterval / 10000000.0)\<close> in
  \<^verbatim>\<open>double\<close> and converts the quotient to \<^verbatim>\<open>unsigned int\<close>. A finite
  non-negative \<^verbatim>\<open>double\<close> (IEEE 754 binary64, each operation rounded once, to
  nearest with ties to even) is the pair \<open>(m, e)\<close> of a significand and an exponent,
  with value \<open>m * 2 ^ e\<close>. Only division of such values is needed.
\<close>

type_synonym double = "nat \<times> int"

text \<open>The rational number that a pair stands for.\<close>

definition double_val :: "double \<Rightarrow> rat" where
  "double_val x = (case x of (m, e) \<Rightarrow> of_nat m * 2 powi e)"

fun bit_length :: "nat \<Rightarrow> nat" where
  "bit_length n = (if n = 0 then 0 else Suc (bit_length (n div 2)))"

declare bit_length.simps [simp del]

text \<open>The quotient \<open>a / b\<close> rounded to the nearest integer, a tie to the even one.\<close>

definition div_round_even :: "nat \<Rightarrow> nat \<Rightarrow> nat" where
  "div_round_even a b =
     (let q = a div b; r = a mod b
      in if 2 * r < b then q else if b < 2 * r then q + 1 else if even q then q else q + 1)"

text \<open>
  \<open>double_div x y\<close> is \<^verbatim>\<open>x / y\<close>: the exact quotient rounded to 53 significant
  bits. \<open>l\<close> is the binary exponent of \<open>m1 / m2\<close>, so that the scaled quotient lies in
  \<open>[2 ^ 52, 2 ^ 53)\<close> before it is rounded. \<open>None\<close> stands for every result that is
  not a finite normal number: a division by zero (infinity or NaN), a subnormal, an
  overflow.
\<close>

definition double_div :: "double \<Rightarrow> double \<Rightarrow> double option" where
  "double_div x y =
     (case (x, y) of ((m1, e1), (m2, e2)) \<Rightarrow>
        if m2 = 0 then None
        else if m1 = 0 then Some (0, 0)
        else
          (let d = int (bit_length m1) - int (bit_length m2);
               l = (if m2 * 2 ^ nat d \<le> m1 * 2 ^ nat (- d) then d else d - 1);
               s = 52 - l;
               m = div_round_even (m1 * 2 ^ nat s) (m2 * 2 ^ nat (- s));
               e = e1 - e2 - s
           in if - 1074 \<le> e \<and> e < 971 then Some (m, e) else None))"

text \<open>An \<^verbatim>\<open>unsigned int\<close> converts to \<^verbatim>\<open>double\<close> exactly.\<close>

definition double_of_u32 :: "u32 \<Rightarrow> double" where
  "double_of_u32 w = (unat w, 0)"

text \<open>
  The conversion of a \<^verbatim>\<open>double\<close> to \<^verbatim>\<open>unsigned int\<close> drops the fraction; a
  value that does not fit is undefined behaviour, \<open>None\<close>.
\<close>

definition double_to_u32 :: "double \<Rightarrow> u32 option" where
  "double_to_u32 x =
     (case x of (m, e) \<Rightarrow>
        (let t = (if 0 \<le> e then m * 2 ^ nat e else m div 2 ^ nat (- e))
         in if t < 2 ^ 32 then Some (of_nat t) else None))"

text \<open>Line 405.\<close>

definition fps_of_interval :: "u32 \<Rightarrow> u32 option" where
  "fps_of_interval ival =
     (case double_div (double_of_u32 ival) (10000000, 0) of
        None \<Rightarrow> None
      | Some x \<Rightarrow>
          (case double_div (1, 0) x of
             None \<Rightarrow> None
           | Some y \<Rightarrow> double_to_u32 y))"

section \<open>Requests, responses and the device\<close>

text \<open>\<^verbatim>\<open>struct usb_ctrlrequest\<close> (linux/usb/ch9.h), on a little-endian host.\<close>

record usb_ctrlrequest =
  bRequestType :: u8
  bRequest :: u8
  wValue :: u16
  wIndex :: u16
  wLength :: u16

text \<open>
  \<^verbatim>\<open>struct uvc_request_data\<close> (linux/usb/g_uvc.h): \<^verbatim>\<open>__s32 length\<close> and
  \<^verbatim>\<open>__u8 data[60]\<close>.
\<close>

record uvc_request_data =
  rd_length :: int
  rd_data :: "u8 list"

text \<open>Constants of the kernel headers.\<close>

definition UVC_SET_CUR :: u8 where "UVC_SET_CUR = 0x01"
definition UVC_GET_CUR :: u8 where "UVC_GET_CUR = 0x81"
definition UVC_GET_MIN :: u8 where "UVC_GET_MIN = 0x82"
definition UVC_GET_MAX :: u8 where "UVC_GET_MAX = 0x83"
definition UVC_GET_RES :: u8 where "UVC_GET_RES = 0x84"
definition UVC_GET_LEN :: u8 where "UVC_GET_LEN = 0x85"
definition UVC_GET_INFO :: u8 where "UVC_GET_INFO = 0x86"
definition UVC_GET_DEF :: u8 where "UVC_GET_DEF = 0x87"

definition UVC_VS_PROBE_CONTROL :: u8 where "UVC_VS_PROBE_CONTROL = 0x01"
definition UVC_VS_COMMIT_CONTROL :: u8 where "UVC_VS_COMMIT_CONTROL = 0x02"

definition USB_TYPE_MASK :: u8 where "USB_TYPE_MASK = 0x60"
definition USB_TYPE_STANDARD :: u8 where "USB_TYPE_STANDARD = 0x00"
definition USB_TYPE_CLASS :: u8 where "USB_TYPE_CLASS = 0x20"
definition USB_RECIP_MASK :: u8 where "USB_RECIP_MASK = 0x1f"
definition USB_RECIP_INTERFACE :: u8 where "USB_RECIP_INTERFACE = 0x01"

definition EL2HLT :: int where "EL2HLT = 51"
definition V4L2_FIELD_NONE :: u32 where "V4L2_FIELD_NONE = 1"
definition UINT_MAX :: u32 where "UINT_MAX = 0xFFFFFFFF"

text \<open>
  The response's \<^verbatim>\<open>data\<close> array holds the control block through the pointer cast of
  line 238. The block is packed and the host little-endian, so a store of the whole
  block writes these 34 bytes and leaves the rest of the array as it was.
\<close>

definition le16 :: "u16 \<Rightarrow> u8 list" where
  "le16 w = [ucast w, ucast (drop_bit 8 w)]"

definition le32 :: "u32 \<Rightarrow> u8 list" where
  "le32 w = [ucast w, ucast (drop_bit 8 w), ucast (drop_bit 16 w), ucast (drop_bit 24 w)]"

definition ctrl_bytes :: "uvc_streaming_control \<Rightarrow> u8 list" where
  "ctrl_bytes c =
     le16 (bmHint c) @ [bFormatIndex c, bFrameIndex c] @ le32 (dwFrameInterval c) @
     le16 (wKeyFrameRate c) @ le16 (wPFrameRate c) @ le16 (wCompQuality c) @
     le16 (wCompWindowSize c) @ le16 (wDelay c) @ le32 (dwMaxVideoFrameSize c) @
     le32 (dwMaxPayloadTransferSize c) @ le32 (dwClockFrequency c) @
     [bmFramingInfo c, bPreferedVersion c, bMinVersion c, bMaxVersion c]"

definition store_ctrl :: "u8 list \<Rightarrow> uvc_streaming_control \<Rightarrow> u8 list" where
  "store_ctrl data c = ctrl_bytes c @ drop 34 data"

text \<open>The 32-bit little-endian value at offset \<open>off\<close> of a byte array.\<close>

definition load_le32 :: "u8 list \<Rightarrow> nat \<Rightarrow> u32" where
  "load_le32 data off =
     ucast (data ! off) OR push_bit 8 (ucast (data ! (off + 1))) OR
     push_bit 16 (ucast (data ! (off + 2))) OR push_bit 24 (ucast (data ! (off + 3)))"

text \<open>
  The calls that \<^verbatim>\<open>uvc.c\<close> makes on \<^verbatim>\<open>dev->stream\<close> (stream.c is not among the
  sources): the device records them in the order they are made.
\<close>

datatype stream_call =
  Set_format v4l2_pix_format
  | Set_frame_rate u32
  | Enable int

text \<open>
  \<^verbatim>\<open>struct uvc_device\<close>. \<^verbatim>\<open>control\<close> is the \<^verbatim>\<open>int\<close> that remembers the
  selector of a SET\_CUR until its data phase; \<^verbatim>\<open>stream\<close> is the record of the calls
  made on the stream.
\<close>

record uvc_device =
  fc :: uvc_function_config
  probe :: uvc_streaming_control
  commit :: uvc_streaming_control
  control :: int
  dev_fcc :: u32
  dev_width :: u32
  dev_height :: u32
  stream :: "stream_call list"

section \<open>Request processing (uvc.c)\<close>

text \<open>
  \<^verbatim>\<open>uvc_events_process_control\<close>. Its parameter \<^verbatim>\<open>len\<close> is a
  \<^verbatim>\<open>uint8_t\<close>; the response length is that byte, widened to \<^verbatim>\<open>__s32\<close>.
\<close>

definition uvc_events_process_control ::
  "uvc_device \<Rightarrow> u8 \<Rightarrow> u8 \<Rightarrow> u8 \<Rightarrow> uvc_request_data \<Rightarrow> uvc_request_data" where
  "uvc_events_process_control dev req cs len resp =
     resp\<lparr>rd_data := (rd_data resp)[0 := 0x03], rd_length := uint len\<rparr>"

text \<open>
  \<^verbatim>\<open>uvc_events_process_streaming\<close>. The \<^verbatim>\<open>switch\<close> on \<^verbatim>\<open>req\<close> has no
  default case: any other request code leaves the length at 34 and the data as they
  were. \<open>None\<close> is undefined behaviour inside the fill.
\<close>

definition uvc_events_process_streaming ::
  "uvc_device \<Rightarrow> u8 \<Rightarrow> u8 \<Rightarrow> uvc_request_data \<Rightarrow> (uvc_device \<times> uvc_request_data) option" where
  "uvc_events_process_streaming dev req cs resp =
     (if cs \<noteq> UVC_VS_PROBE_CONTROL \<and> cs \<noteq> UVC_VS_COMMIT_CONTROL then Some (dev, resp)
      else
        (let resp1 = resp\<lparr>rd_length := 34\<rparr>
         in if req = UVC_SET_CUR then
              Some (dev\<lparr>control := uint cs\<rparr>, resp1\<lparr>rd_length := 34\<rparr>)
            else if req = UVC_GET_CUR then
              (if cs = UVC_VS_PROBE_CONTROL
               then Some (dev, resp1\<lparr>rd_data := store_ctrl (rd_data resp1) (probe dev)\<rparr>)
               else Some (dev, resp1\<lparr>rd_data := store_ctrl (rd_data resp1) (commit dev)\<rparr>))
            else if req = UVC_GET_MIN \<or> req = UVC_GET_MAX \<or> req = UVC_GET_DEF then
              (case (if req = UVC_GET_MAX
                     then uvc_fill_streaming_control (fc dev) (- 1) (- 1) UINT_MAX
                     else uvc_fill_streaming_control (fc dev) 1 1 0) of
                 None \<Rightarrow> None
               | Some ctrl \<Rightarrow> Some (dev, resp1\<lparr>rd_data := store_ctrl (rd_data resp1) ctrl\<rparr>))
            else if req = UVC_GET_RES then
              Some (dev, resp1\<lparr>rd_data := store_ctrl (rd_data resp1) zero_ctrl\<rparr>)
            else if req = UVC_GET_LEN then
              Some (dev, resp1\<lparr>rd_data := (rd_data resp1)[0 := 0x00, 1 := 0x22], rd_length := 2\<rparr>)
            else if req = UVC_GET_INFO then
              Some (dev, resp1\<lparr>rd_data := (rd_data resp1)[0 := 0x03], rd_length := 1\<rparr>)
            else Some (dev, resp1)))"

text \<open>
  \<^verbatim>\<open>uvc_events_process_class\<close>. The control interface is tested first. The call
  passes \<^verbatim>\<open>ctrl->wValue >> 8\<close> and \<^verbatim>\<open>ctrl->wLength\<close> to \<^verbatim>\<open>uint8_t\<close>
  parameters, which keep the low byte.
\<close>

definition uvc_events_process_class ::
  "uvc_device \<Rightarrow> usb_ctrlrequest \<Rightarrow> uvc_request_data \<Rightarrow> (uvc_device \<times> uvc_request_data) option" where
  "uvc_events_process_class dev ctrl resp =
     (let interface = (ucast (wIndex ctrl AND 0xff) :: u32)
      in if bRequestType ctrl AND USB_RECIP_MASK \<noteq> USB_RECIP_INTERFACE then Some (dev, resp)
         else if interface = control_bInterfaceNumber (fc dev) then
           Some (dev, uvc_events_process_control dev (bRequest ctrl)
                        (ucast (drop_bit 8 (wValue ctrl))) (ucast (wLength ctrl)) resp)
         else if interface = streaming_bInterfaceNumber (fc dev) then
           uvc_events_process_streaming dev (bRequest ctrl) (ucast (drop_bit 8 (wValue ctrl))) resp
         else Some (dev, resp))"

text \<open>\<^verbatim>\<open>uvc_events_process_standard\<close> does nothing.\<close>

definition uvc_events_process_standard ::
  "uvc_device \<Rightarrow> usb_ctrlrequest \<Rightarrow> uvc_request_data \<Rightarrow> uvc_device \<times> uvc_request_data" where
  "uvc_events_process_standard dev ctrl resp = (dev, resp)"

text \<open>\<^verbatim>\<open>uvc_events_process_setup\<close>: \<^verbatim>\<open>dev->control\<close> is cleared first.\<close>

definition uvc_events_process_setup ::
  "uvc_device \<Rightarrow> usb_ctrlrequest \<Rightarrow> uvc_request_data \<Rightarrow> (uvc_device \<times> uvc_request_data) option" where
  "uvc_events_process_setup dev ctrl resp =
     (let dev1 = dev\<lparr>control := 0\<rparr>
      in if bRequestType ctrl AND USB_TYPE_MASK = USB_TYPE_STANDARD then
           Some (uvc_events_process_standard dev1 ctrl resp)
         else if bRequestType ctrl AND USB_TYPE_MASK = USB_TYPE_CLASS then
           uvc_events_process_class dev1 ctrl resp
         else Some (dev1, resp))"

text \<open>
  \<^verbatim>\<open>uvc_events_process_data\<close>. The payload is read through the block's layout:
  \<^verbatim>\<open>bFormatIndex\<close> is byte 2, \<^verbatim>\<open>bFrameIndex\<close> byte 3, \<^verbatim>\<open>dwFrameInterval\<close>
  bytes 4 to 7. The two index bytes are promoted to \<^verbatim>\<open>int\<close> for the fill. The
  second part reads the indices back from the 8-bit fields of the filled block.
\<close>

definition uvc_events_process_data :: "uvc_device \<Rightarrow> uvc_request_data \<Rightarrow> uvc_device option" where
  "uvc_events_process_data dev data =
     (if control dev \<noteq> uint UVC_VS_PROBE_CONTROL \<and> control dev \<noteq> uint UVC_VS_COMMIT_CONTROL
      then Some dev
      else
        (case uvc_fill_streaming_control (fc dev) (ucast (rd_data data ! 2))
                (ucast (rd_data data ! 3)) (load_le32 (rd_data data) 4) of
           None \<Rightarrow> None
         | Some target \<Rightarrow>
             (let dev1 = (if control dev = uint UVC_VS_PROBE_CONTROL
                          then dev\<lparr>probe := target\<rparr> else dev\<lparr>commit := target\<rparr>)
              in if control dev1 = uint UVC_VS_COMMIT_CONTROL then
                   (case array_read (formats (fc dev1)) (uint (bFormatIndex target) - 1) of
                      None \<Rightarrow> None
                    | Some format \<Rightarrow>
                        (case array_read (frames format) (uint (bFrameIndex target) - 1) of
                           None \<Rightarrow> None
                         | Some frame \<Rightarrow>
                             (let dev2 = dev1\<lparr>dev_fcc := fcc format, dev_width := width frame,
                                               dev_height := height frame\<rparr>;
                                  pixfmt = \<lparr>pix_width = width frame, pix_height = height frame,
                                            pix_pixelformat = fcc format,
                                            pix_field = V4L2_FIELD_NONE, pix_sizeimage = 0\<rparr>;
                                  pixfmt1 = (if fcc format = V4L2_PIX_FMT_MJPEG
                                             then pixfmt\<lparr>pix_sizeimage := dwMaxVideoFrameSize target\<rparr>
                                             else pixfmt);
                                  dev3 = dev2\<lparr>stream := stream dev2 @ [Set_format pixfmt1]\<rparr>
                              in case fps_of_interval (dwFrameInterval target) of
                                   None \<Rightarrow> None
                                 | Some fps \<Rightarrow>
                                     Some (dev3\<lparr>stream := stream dev3 @ [Set_frame_rate fps]\<rparr>))))
                 else Some dev1)))"

text \<open>
  The events that \<^verbatim>\<open>VIDIOC_DQEVENT\<close> delivers to \<^verbatim>\<open>uvc_events_process\<close>, with
  the payload of the two kinds that carry one. \<open>Other_event\<close> is any type the
  \<^verbatim>\<open>switch\<close> does not name.
\<close>

datatype uvc_event =
  UVC_EVENT_CONNECT
  | UVC_EVENT_DISCONNECT
  | UVC_EVENT_STREAMON
  | UVC_EVENT_STREAMOFF
  | UVC_EVENT_SETUP usb_ctrlrequest
  | UVC_EVENT_DATA uvc_request_data
  | Other_event

text \<open>The response as \<^verbatim>\<open>uvc_events_process\<close> prepares it before the dispatch.\<close>

definition initial_resp :: uvc_request_data where
  "initial_resp = \<lparr>rd_length = - EL2HLT, rd_data = replicate 60 0\<rparr>"

text \<open>
  \<^verbatim>\<open>uvc_events_process\<close> once the event is dequeued: the new device and the
  response handed to \<^verbatim>\<open>UVCIOC_SEND_RESPONSE\<close>, if one is sent.
\<close>

fun uvc_events_process :: "uvc_device \<Rightarrow> uvc_event \<Rightarrow> (uvc_device \<times> uvc_request_data option) option" where
  "uvc_events_process dev UVC_EVENT_CONNECT = Some (dev, None)"
| "uvc_events_process dev UVC_EVENT_DISCONNECT = Some (dev, None)"
| "uvc_events_process dev (UVC_EVENT_SETUP req) =
     (case uvc_events_process_setup dev req initial_resp of
        None \<Rightarrow> None
      | Some (dev1, resp) \<Rightarrow> Some (dev1, Some resp))"
| "uvc_events_process dev (UVC_EVENT_DATA data) =
     (case uvc_events_process_data dev data of
        None \<Rightarrow> None
      | Some dev1 \<Rightarrow> Some (dev1, None))"
| "uvc_events_process dev UVC_EVENT_STREAMON = Some (dev\<lparr>stream := stream dev @ [Enable 1]\<rparr>, None)"
| "uvc_events_process dev UVC_EVENT_STREAMOFF = Some (dev\<lparr>stream := stream dev @ [Enable 0]\<rparr>, None)"
| "uvc_events_process dev Other_event = Some (dev, Some initial_resp)"

text \<open>
  \<^verbatim>\<open>uvc_events_init\<close>: the two fills. The event subscriptions that follow do not
  touch the device structure.
\<close>

definition uvc_events_init :: "uvc_device \<Rightarrow> uvc_device option" where
  "uvc_events_init dev =
     (case uvc_fill_streaming_control (fc dev) 1 1 0 of
        None \<Rightarrow> None
      | Some p \<Rightarrow>
          (case uvc_fill_streaming_control (fc (dev\<lparr>probe := p\<rparr>)) 1 1 0 of
             None \<Rightarrow> None
           | Some c \<Rightarrow> Some (dev\<lparr>probe := p, commit := c\<rparr>)))"

section \<open>Well-formed configurations\<close>

text \<open>
  A configuration as the configuration reader builds it: each count is the length of
  its array, and no array is empty. The bound keeps the clamped index inside
  \<^verbatim>\<open>int\<close>.
\<close>

definition frame_ok :: "uvc_function_config_frame \<Rightarrow> bool" where
  "frame_ok frame \<longleftrightarrow>
     unat (num_intervals frame) = length (intervals frame) \<and> intervals frame \<noteq> []"

definition format_ok :: "uvc_function_config_format \<Rightarrow> bool" where
  "format_ok format \<longleftrightarrow>
     unat (num_frames format) = length (frames format) \<and> frames format \<noteq> [] \<and>
     length (frames format) < 2 ^ 31 \<and> list_all frame_ok (frames format)"

definition config_ok :: "uvc_function_config \<Rightarrow> bool" where
  "config_ok cfg \<longleftrightarrow>
     unat (num_formats cfg) = length (formats cfg) \<and> formats cfg \<noteq> [] \<and>
     length (formats cfg) < 2 ^ 31 \<and> list_all format_ok (formats cfg)"

section \<open>Devices, requests and configurations used in the statements\<close>

text \<open>
  The device as \<^verbatim>\<open>uvc_open\<close> (a \<^verbatim>\<open>memset\<close> to zero) and
  \<^verbatim>\<open>uvc_set_config\<close> leave it.
\<close>

definition opened_device :: "uvc_function_config \<Rightarrow> uvc_device" where
  "opened_device cfg =
     \<lparr>fc = cfg, probe = zero_ctrl, commit = zero_ctrl, control = 0,
      dev_fcc = 0, dev_width = 0, dev_height = 0, stream = []\<rparr>"

text \<open>
  A SETUP packet that \<^verbatim>\<open>uvc_events_process_setup\<close> and
  \<^verbatim>\<open>uvc_events_process_class\<close> route to the streaming handler with request code
  \<open>req\<close> and selector \<open>cs\<close>: class type, interface recipient, the streaming
  interface's number in the low byte of \<^verbatim>\<open>wIndex\<close> (and not the control
  interface's, which is tested first), the selector in the high byte of \<^verbatim>\<open>wValue\<close>.
\<close>

definition streaming_request :: "uvc_function_config \<Rightarrow> usb_ctrlrequest \<Rightarrow> u8 \<Rightarrow> u8 \<Rightarrow> bool" where
  "streaming_request cfg ctrl req cs \<longleftrightarrow>
     bRequestType ctrl AND USB_TYPE_MASK = USB_TYPE_CLASS \<and>
     bRequestType ctrl AND USB_RECIP_MASK = USB_RECIP_INTERFACE \<and>
     (ucast (wIndex ctrl AND 0xff) :: u32) = streaming_bInterfaceNumber cfg \<and>
     (ucast (wIndex ctrl AND 0xff) :: u32) \<noteq> control_bInterfaceNumber cfg \<and>
     bRequest ctrl = req \<and> (ucast (drop_bit 8 (wValue ctrl)) :: u8) = cs"

text \<open>The same for the control interface.\<close>

definition control_request :: "uvc_function_config \<Rightarrow> usb_ctrlrequest \<Rightarrow> bool" where
  "control_request cfg ctrl \<longleftrightarrow>
     bRequestType ctrl AND USB_TYPE_MASK = USB_TYPE_CLASS \<and>
     bRequestType ctrl AND USB_RECIP_MASK = USB_RECIP_INTERFACE \<and>
     (ucast (wIndex ctrl AND 0xff) :: u32) = control_bInterfaceNumber cfg"

text \<open>The 16-bit little-endian value at offset \<open>off\<close> of a byte array.\<close>

definition load_le16 :: "u8 list \<Rightarrow> nat \<Rightarrow> u16" where
  "load_le16 data off = ucast (data ! off) OR push_bit 8 (ucast (data ! (off + 1)))"

text \<open>
  The configuration that the repository's gadget set-up script and the spec's scenarios
  describe: one YUYV format, frames 640x360 and 1280x720, the four intervals of the
  script, a 2048-byte streaming packet size.
\<close>

definition frame_360p :: uvc_function_config_frame where
  "frame_360p = \<lparr>width = 640, height = 360, num_intervals = 4,
                  intervals = [166666, 200000, 333333, 500000]\<rparr>"

definition frame_720p :: uvc_function_config_frame where
  "frame_720p = \<lparr>width = 1280, height = 720, num_intervals = 4,
                  intervals = [166666, 200000, 333333, 500000]\<rparr>"

definition format_yuyv :: uvc_function_config_format where
  "format_yuyv = \<lparr>fcc = V4L2_PIX_FMT_YUYV, num_frames = 2, frames = [frame_360p, frame_720p]\<rparr>"

definition gadget_config :: uvc_function_config where
  "gadget_config = \<lparr>control_bInterfaceNumber = 0, streaming_bInterfaceNumber = 1,
                     streaming_wMaxPacketSize = 2048, num_formats = 1, formats = [format_yuyv]\<rparr>"

text \<open>A frame whose interval list is not in ascending order, and a configuration with it.\<close>

definition frame_unsorted :: uvc_function_config_frame where
  "frame_unsorted = \<lparr>width = 640, height = 360, num_intervals = 2,
                      intervals = [500000, 166666]\<rparr>"

definition config_unsorted :: uvc_function_config where
  "config_unsorted = \<lparr>control_bInterfaceNumber = 0, streaming_bInterfaceNumber = 1,
     streaming_wMaxPacketSize = 2048, num_formats = 1,
     formats = [\<lparr>fcc = V4L2_PIX_FMT_YUYV, num_frames = 1, frames = [frame_unsorted]\<rparr>]\<rparr>"

text \<open>A configuration with 256 formats, all the YUYV format above.\<close>

definition config_256 :: uvc_function_config where
  "config_256 = \<lparr>control_bInterfaceNumber = 0, streaming_bInterfaceNumber = 1,
     streaming_wMaxPacketSize = 2048, num_formats = 256, formats = replicate 256 format_yuyv\<rparr>"

text \<open>A configuration whose only frame has the single interval 100 (10 microseconds).\<close>

definition config_fast :: uvc_function_config where
  "config_fast = \<lparr>control_bInterfaceNumber = 0, streaming_bInterfaceNumber = 1,
     streaming_wMaxPacketSize = 2048, num_formats = 1,
     formats = [\<lparr>fcc = V4L2_PIX_FMT_YUYV, num_frames = 1,
                 frames = [\<lparr>width = 640, height = 360, num_intervals = 1, intervals = [100]\<rparr>]\<rparr>]\<rparr>"

text \<open>
  A YUYV frame of 50000 by 50000 pixels (both dimensions fit the 16 bits of the frame
  descriptor's \<^verbatim>\<open>wWidth\<close> and \<^verbatim>\<open>wHeight\<close>), and a configuration with it.
\<close>

definition frame_large :: uvc_function_config_frame where
  "frame_large = \<lparr>width = 50000, height = 50000, num_intervals = 1, intervals = [333333]\<rparr>"

definition format_large :: uvc_function_config_format where
  "format_large = \<lparr>fcc = V4L2_PIX_FMT_YUYV, num_frames = 1, frames = [frame_large]\<rparr>"

definition config_large :: uvc_function_config where
  "config_large = \<lparr>control_bInterfaceNumber = 0, streaming_bInterfaceNumber = 1,
     streaming_wMaxPacketSize = 2048, num_formats = 1, formats = [format_large]\<rparr>"

text \<open>
  A 60-byte payload that carries format index \<open>f\<close>, frame index \<open>r\<close> and frame
  interval \<open>ival\<close> at their places in the block, zero elsewhere.
\<close>

definition payload :: "u8 \<Rightarrow> u8 \<Rightarrow> u32 \<Rightarrow> uvc_request_data" where
  "payload f r ival =
     \<lparr>rd_length = 34, rd_data = [0, 0, f, r] @ le32 ival @ replicate 52 0\<rparr>"

text \<open>
  The reactor calls \<^verbatim>\<open>uvc_events_process\<close> once per event, one event after the
  other: \<open>run_events\<close> is the device after a list of events, and \<open>run_gadget\<close>
  the device after \<^verbatim>\<open>uvc_open\<close>, \<^verbatim>\<open>uvc_set_config\<close>,
  \<^verbatim>\<open>uvc_events_init\<close> and then the events.
\<close>

fun run_events :: "uvc_device \<Rightarrow> uvc_event list \<Rightarrow> uvc_device option" where
  "run_events dev [] = Some dev"
| "run_events dev (e # es) =
     (case uvc_events_process dev e of
        None \<Rightarrow> None
      | Some (dev1, resp) \<Rightarrow> run_events dev1 es)"

definition run_gadget :: "uvc_function_config \<Rightarrow> uvc_event list \<Rightarrow> uvc_device option" where
  "run_gadget cfg es =
     (case uvc_events_init (opened_device cfg) of
        None \<Rightarrow> None
      | Some dev \<Rightarrow> run_events dev es)"

section \<open>Properties of the static test source\<close>

lemma yuyv_value: "V4L2_PIX_FMT_YUYV = 0x56595559"
  by (simp add: V4L2_PIX_FMT_YUYV_def v4l2_fourcc_def)

lemma mjpeg_value: "V4L2_PIX_FMT_MJPEG = 0x47504A4D"
  by (simp add: V4L2_PIX_FMT_MJPEG_def v4l2_fourcc_def)

lemma yuyv_neq_mjpeg: "V4L2_PIX_FMT_MJPEG \<noteq> V4L2_PIX_FMT_YUYV"
  by (simp add: yuyv_value mjpeg_value)

text \<open>
  C9. \<^verbatim>\<open>test_source_set_format\<close> returns \<^verbatim>\<open>-EINVAL\<close> (-22) for every pixel
  format whose FourCC is not YUYV, and 0 for a YUYV format.
\<close>

theorem C9_set_format_result:
  "fst (test_source_set_format src fmt) =
     (if pix_pixelformat fmt = V4L2_PIX_FMT_YUYV then 0 else - 22)"
  by (simp add: test_source_set_format_def V4L2_PIX_FMT_YUYV_def EINVAL_def Let_def)

theorem C9_set_format_result_witness:
  "fst (test_source_set_format \<lparr>ts_width = 0, ts_height = 0, ts_pixelformat = 0\<rparr>
          \<lparr>pix_width = 640, pix_height = 360, pix_pixelformat = V4L2_PIX_FMT_MJPEG,
           pix_field = 1, pix_sizeimage = 0\<rparr>) = - 22
   \<and> fst (test_source_set_format \<lparr>ts_width = 0, ts_height = 0, ts_pixelformat = 0\<rparr>
          \<lparr>pix_width = 640, pix_height = 360, pix_pixelformat = V4L2_PIX_FMT_YUYV,
           pix_field = 1, pix_sizeimage = 0\<rparr>) = 0"
  using C9_set_format_result
    [of "\<lparr>ts_width = 0, ts_height = 0, ts_pixelformat = 0\<rparr>"
        "\<lparr>pix_width = 640, pix_height = 360, pix_pixelformat = V4L2_PIX_FMT_MJPEG,
          pix_field = 1, pix_sizeimage = 0\<rparr>"]
    C9_set_format_result
    [of "\<lparr>ts_width = 0, ts_height = 0, ts_pixelformat = 0\<rparr>"
        "\<lparr>pix_width = 640, pix_height = 360, pix_pixelformat = V4L2_PIX_FMT_YUYV,
          pix_field = 1, pix_sizeimage = 0\<rparr>"]
  by (simp add: yuyv_value mjpeg_value)

text \<open>
  C10. \<^verbatim>\<open>test_source_set_format\<close> stores the requested width, height and pixel
  format before it tests the FourCC: when it rejects a non-YUYV format with
  \<^verbatim>\<open>-EINVAL\<close>, the source already holds the rejected request, whatever it held
  before.
\<close>

theorem C10_set_format_not_atomic:
  "pix_pixelformat fmt \<noteq> V4L2_PIX_FMT_YUYV \<Longrightarrow>
     test_source_set_format src fmt =
       (- 22, \<lparr>ts_width = pix_width fmt, ts_height = pix_height fmt,
               ts_pixelformat = pix_pixelformat fmt\<rparr>)"
  by (simp add: test_source_set_format_def V4L2_PIX_FMT_YUYV_def EINVAL_def Let_def)

theorem C10_set_format_not_atomic_witness:
  "pix_pixelformat \<lparr>pix_width = 640, pix_height = 360, pix_pixelformat = V4L2_PIX_FMT_MJPEG,
       pix_field = 1, pix_sizeimage = 0\<rparr> \<noteq> V4L2_PIX_FMT_YUYV
   \<and> test_source_set_format \<lparr>ts_width = 1280, ts_height = 720, ts_pixelformat = V4L2_PIX_FMT_YUYV\<rparr>
       \<lparr>pix_width = 640, pix_height = 360, pix_pixelformat = V4L2_PIX_FMT_MJPEG,
        pix_field = 1, pix_sizeimage = 0\<rparr>
     = (- 22, \<lparr>ts_width = 640, ts_height = 360, ts_pixelformat = V4L2_PIX_FMT_MJPEG\<rparr>)
   \<and> \<lparr>ts_width = 640, ts_height = 360, ts_pixelformat = V4L2_PIX_FMT_MJPEG\<rparr>
       \<noteq> \<lparr>ts_width = 1280, ts_height = 720, ts_pixelformat = V4L2_PIX_FMT_YUYV\<rparr>"
  using C10_set_format_not_atomic
    [of "\<lparr>pix_width = 640, pix_height = 360, pix_pixelformat = V4L2_PIX_FMT_MJPEG,
          pix_field = 1, pix_sizeimage = 0\<rparr>"
        "\<lparr>ts_width = 1280, ts_height = 720, ts_pixelformat = V4L2_PIX_FMT_YUYV\<rparr>"]
  by (simp add: yuyv_value mjpeg_value)

section \<open>The interval loop\<close>

lemma word_succ_unat: "(i::u32) < n \<Longrightarrow> unat (i + 1) = Suc (unat i)"
proof -
  assume "i < n"
  then have "i + 1 \<noteq> 0"
    by (metis add.commute add.right_inverse add_left_cancel word_order.extremum_strict)
  then show ?thesis by (simp add: unatSuc add.commute)
qed

lemma array_read_nth: "n < length xs \<Longrightarrow> array_read xs (int n) = Some (xs ! n)"
  by (simp add: array_read_def)

lemma interval_loop_find:
  "unat (num_intervals frame) = length (intervals frame) \<Longrightarrow>
   unat i \<le> length (intervals frame) \<Longrightarrow>
     (case find (\<lambda>x. ival \<le> x) (drop (unat i) (intervals frame)) of
        None \<Rightarrow> interval_loop frame i ival = Some (num_intervals frame, ival)
      | Some x \<Rightarrow> \<exists>j. j < num_intervals frame \<and> interval_loop frame i ival = Some (j, x))"
proof (induction frame i ival rule: interval_loop.induct)
  case (1 frame i ival)
  note len = "1.prems"(1) and bound = "1.prems"(2)
  show ?case
  proof (cases "i < num_intervals frame")
    case False
    then have "unat (num_intervals frame) \<le> unat i"
      by (simp add: word_le_nat_alt not_less)
    with len bound have "unat i = unat (num_intervals frame)" by simp
    then have eq: "i = num_intervals frame" by (simp add: word_unat_eq_iff)
    have "drop (unat i) (intervals frame) = []" using len eq by simp
    moreover have "interval_loop frame i ival = Some (i, ival)"
      using False by (simp add: interval_loop.simps)
    ultimately show ?thesis using eq by simp
  next
    case True
    then have lt: "unat i < length (intervals frame)"
      using len by (simp add: word_less_nat_alt)
    have rd: "array_read (intervals frame) (uint i) = Some (intervals frame ! unat i)"
      using array_read_nth [OF lt] by simp
    have dr: "drop (unat i) (intervals frame)
        = intervals frame ! unat i # drop (unat (i + 1)) (intervals frame)"
      using lt by (simp add: Cons_nth_drop_Suc word_succ_unat [OF True])
    show ?thesis
    proof (cases "ival \<le> intervals frame ! unat i")
      case le: True
      have "interval_loop frame i ival = Some (i, intervals frame ! unat i)"
        using True rd le by (simp add: interval_loop.simps)
      then show ?thesis using True dr le by auto
    next
      case nle: False
      have step: "interval_loop frame i ival = interval_loop frame (i + 1) ival"
        using True rd nle by (subst interval_loop.simps) simp
      have "unat (i + 1) \<le> length (intervals frame)"
        using lt by (simp add: word_succ_unat [OF True])
      from "1.IH" [OF True rd nle len this] show ?thesis
        unfolding step dr using nle by simp
    qed
  qed
qed

lemma select_interval_find:
  assumes "frame_ok frame"
  shows "select_interval frame ival =
     Some (case find (\<lambda>x. ival \<le> x) (intervals frame) of
             None \<Rightarrow> last (intervals frame) | Some x \<Rightarrow> x)"
proof -
  from assms have len: "unat (num_intervals frame) = length (intervals frame)"
    and ne: "intervals frame \<noteq> []"
    by (simp_all add: frame_ok_def)
  have n1: "1 \<le> num_intervals frame"
    using len ne by (simp add: word_le_nat_alt Suc_le_eq)
  then have "unat (num_intervals frame - 1) = length (intervals frame) - 1"
    using len by (simp add: unat_sub)
  then have u: "uint (num_intervals frame - 1) = int (length (intervals frame) - 1)"
    by (simp only: uint_nat)
  have "length (intervals frame) - 1 < length (intervals frame)"
    using ne by simp
  then have "array_read (intervals frame) (int (length (intervals frame) - 1))
      = Some (intervals frame ! (length (intervals frame) - 1))"
    by (rule array_read_nth)
  then have lastrd:
    "array_read (intervals frame) (uint (num_intervals frame - 1)) = Some (last (intervals frame))"
    by (simp only: u last_conv_nth [OF ne])
  from interval_loop_find [OF len, of 0 ival]
  show ?thesis
    by (auto simp: select_interval_def lastrd split: option.splits)
qed

lemma find_sorted_Min:
  "sorted xs \<Longrightarrow> find (\<lambda>x. (v::u32) \<le> x) xs = Some y \<Longrightarrow> y = Min {x \<in> set xs. v \<le> x}"
proof (induction xs)
  case Nil
  then show ?case by simp
next
  case (Cons a xs)
  show ?case
  proof (cases "v \<le> a")
    case True
    with Cons.prems have ya: "y = a" by simp
    have "Min {x \<in> set (a # xs). v \<le> x} = a"
    proof (rule Min_eqI)
      show "finite {x \<in> set (a # xs). v \<le> x}" by simp
      show "a \<in> {x \<in> set (a # xs). v \<le> x}" using True by simp
      fix z assume "z \<in> {x \<in> set (a # xs). v \<le> x}"
      then show "a \<le> z" using Cons.prems(1) by auto
    qed
    with ya show ?thesis by simp
  next
    case False
    with Cons.prems have f: "find (\<lambda>x. v \<le> x) xs = Some y" and s: "sorted xs" by simp_all
    have "{x \<in> set (a # xs). v \<le> x} = {x \<in> set xs. v \<le> x}" using False by auto
    with Cons.IH [OF s f] show ?thesis by simp
  qed
qed

lemma last_sorted_Max: "sorted xs \<Longrightarrow> xs \<noteq> [] \<Longrightarrow> last xs = Max (set (xs::u32 list))"
proof -
  assume s: "sorted xs" and ne: "xs \<noteq> []"
  have "Max (set xs) = last xs"
  proof (rule Max_eqI)
    show "finite (set xs)" by simp
    show "last xs \<in> set xs" using ne by simp
    fix y assume "y \<in> set xs"
    then obtain i where i: "i < length xs" "xs ! i = y" by (auto simp: in_set_conv_nth)
    then have "xs ! i \<le> xs ! (length xs - 1)"
      using s by (intro sorted_nth_mono) auto
    then show "y \<le> last xs" using i ne by (simp add: last_conv_nth)
  qed
  then show ?thesis by simp
qed

lemma select_interval_sorted:
  assumes ok: "frame_ok frame" and s: "sorted (intervals frame)"
  shows "select_interval frame ival =
     Some (if \<exists>x \<in> set (intervals frame). ival \<le> x
           then Min {x \<in> set (intervals frame). ival \<le> x}
           else Max (set (intervals frame)))"
proof (cases "find (\<lambda>x. ival \<le> x) (intervals frame)")
  case None
  then have "\<not> (\<exists>x \<in> set (intervals frame). ival \<le> x)"
    by (simp add: find_None_iff)
  moreover have "last (intervals frame) = Max (set (intervals frame))"
    using ok s by (simp add: last_sorted_Max frame_ok_def)
  ultimately show ?thesis
    using None by (simp add: select_interval_find [OF ok])
next
  case (Some y)
  then have "\<exists>x \<in> set (intervals frame). ival \<le> x"
    by (auto simp: find_Some_iff)
  moreover have "y = Min {x \<in> set (intervals frame). ival \<le> x}"
    using s Some by (rule find_sorted_Min)
  ultimately show ?thesis
    using Some by (simp add: select_interval_find [OF ok])
qed

section \<open>Clamping and selection\<close>

lemma sint_small: "unat (c::u32) < 2 ^ 31 \<Longrightarrow> sint c = int (unat c)"
proof -
  assume "unat c < 2 ^ 31"
  then have "int (unat c) < int (2 ^ 31)" by (simp only: of_nat_less_iff)
  then have "uint c < int (2 ^ 31)" by (simp only: uint_nat)
  then have hi: "uint c < 2 ^ 31" by simp
  have lo: "- (2 ^ 31) \<le> uint c"
  proof -
    have "- (2 ^ 31) \<le> (0::int)" by simp
    also have "0 \<le> uint c" by simp
    finally show ?thesis .
  qed
  have "signed_take_bit 31 (uint c) = uint c"
    using lo hi by (rule signed_take_bit_int_eq_self)
  then have "sint c = uint c" by (simp add: sint_uint)
  then show ?thesis by (simp only: uint_nat)
qed

lemma clamp_bounds: "1 \<le> hi \<Longrightarrow> 1 \<le> clamp v 1 hi \<and> clamp v 1 hi \<le> hi"
  by (auto simp: clamp_def Let_def word_le_nat_alt word_less_nat_alt)

lemma clamp_minus1: "1 \<le> hi \<Longrightarrow> clamp (- 1) 1 hi = hi"
proof (cases "hi = - 1")
  case True
  then show ?thesis by (simp add: clamp_def Let_def)
next
  case False
  then have "hi < - 1" by (simp add: word_order.not_eq_extremum)
  then show ?thesis by (simp add: clamp_def Let_def)
qed

lemma clamp_one: "1 \<le> hi \<Longrightarrow> clamp 1 1 hi = 1"
  by (auto simp: clamp_def Let_def)

lemma array_read_clamped:
  assumes len: "unat n = length xs" and ne: "xs \<noteq> []" and small: "length xs < 2 ^ 31"
  shows "array_read xs (sint (clamp v 1 n) - 1) = Some (xs ! (unat (clamp v 1 n) - 1))"
proof -
  have n1: "1 \<le> n" using len ne by (simp add: word_le_nat_alt Suc_le_eq)
  from clamp_bounds [OF n1, of v]
  have lo: "1 \<le> unat (clamp v 1 n)" and hi: "unat (clamp v 1 n) \<le> length xs"
    using len by (simp_all add: word_le_nat_alt)
  then have "sint (clamp v 1 n) = int (unat (clamp v 1 n))"
    using small by (intro sint_small) simp
  moreover have "int (unat (clamp v 1 n)) - 1 = int (unat (clamp v 1 n) - 1)"
    using lo by simp
  moreover have "unat (clamp v 1 n) - 1 < length xs" using lo hi by simp
  ultimately show ?thesis by (simp only: array_read_nth)
qed

lemma selected_format_ok:
  assumes "config_ok cfg"
  shows "selected_format cfg iformat
           = Some (formats cfg ! (unat (clamp iformat 1 (num_formats cfg)) - 1))"
    and "format_ok (formats cfg ! (unat (clamp iformat 1 (num_formats cfg)) - 1))"
proof -
  from assms have len: "unat (num_formats cfg) = length (formats cfg)"
    and ne: "formats cfg \<noteq> []" and small: "length (formats cfg) < 2 ^ 31"
    and all: "list_all format_ok (formats cfg)"
    by (simp_all add: config_ok_def)
  show "selected_format cfg iformat
           = Some (formats cfg ! (unat (clamp iformat 1 (num_formats cfg)) - 1))"
    unfolding selected_format_def by (rule array_read_clamped [OF len ne small])
  have n1: "1 \<le> num_formats cfg" using len ne by (simp add: word_le_nat_alt Suc_le_eq)
  from clamp_bounds [OF n1, of iformat]
  have "unat (clamp iformat 1 (num_formats cfg)) - 1 < length (formats cfg)"
    using len by (auto simp: word_le_nat_alt)
  with all show "format_ok (formats cfg ! (unat (clamp iformat 1 (num_formats cfg)) - 1))"
    by (simp add: list_all_length)
qed

lemma selected_frame_of_format:
  assumes "selected_format cfg iformat = Some format" and "format_ok format"
  shows "selected_frame cfg iformat iframe
           = Some (frames format ! (unat (clamp iframe 1 (num_frames format)) - 1))"
    and "frame_ok (frames format ! (unat (clamp iframe 1 (num_frames format)) - 1))"
proof -
  from assms(2) have len: "unat (num_frames format) = length (frames format)"
    and ne: "frames format \<noteq> []" and small: "length (frames format) < 2 ^ 31"
    and all: "list_all frame_ok (frames format)"
    by (simp_all add: format_ok_def)
  show "selected_frame cfg iformat iframe
           = Some (frames format ! (unat (clamp iframe 1 (num_frames format)) - 1))"
    unfolding selected_frame_def using assms(1)
    by (simp add: array_read_clamped [OF len ne small])
  have n1: "1 \<le> num_frames format" using len ne by (simp add: word_le_nat_alt Suc_le_eq)
  from clamp_bounds [OF n1, of iframe]
  have "unat (clamp iframe 1 (num_frames format)) - 1 < length (frames format)"
    using len by (auto simp: word_le_nat_alt)
  with all show "frame_ok (frames format ! (unat (clamp iframe 1 (num_frames format)) - 1))"
    by (simp add: list_all_length)
qed

lemma fill_selected:
  assumes fmt: "selected_format cfg iformat = Some format"
    and frm: "selected_frame cfg iformat iframe = Some frame"
    and ok: "frame_ok frame"
  shows "uvc_fill_streaming_control cfg iformat iframe ival =
     Some \<lparr>bmHint = 1,
           bFormatIndex = ucast (clamp iformat 1 (num_formats cfg)),
           bFrameIndex = ucast (clamp iframe 1 (num_frames format)),
           dwFrameInterval = (case find (\<lambda>x. ival \<le> x) (intervals frame) of
                                None \<Rightarrow> last (intervals frame) | Some x \<Rightarrow> x),
           wKeyFrameRate = 0, wPFrameRate = 0, wCompQuality = 0, wCompWindowSize = 0,
           wDelay = 0,
           dwMaxVideoFrameSize =
             (if fcc format = V4L2_PIX_FMT_YUYV \<or> fcc format = V4L2_PIX_FMT_MJPEG
              then width frame * height frame * 2 else 0),
           dwMaxPayloadTransferSize = streaming_wMaxPacketSize cfg,
           dwClockFrequency = 0, bmFramingInfo = 3, bPreferedVersion = 1,
           bMinVersion = 0, bMaxVersion = 1\<rparr>"
proof -
  from fmt have a: "array_read (formats cfg) (sint (clamp iformat 1 (num_formats cfg)) - 1)
      = Some format"
    by (simp add: selected_format_def)
  from frm fmt have b: "array_read (frames format) (sint (clamp iframe 1 (num_frames format)) - 1)
      = Some frame"
    by (simp add: selected_frame_def)
  show ?thesis
    by (simp add: uvc_fill_streaming_control_def Let_def a b select_interval_find [OF ok] zero_ctrl_def)
qed

section \<open>Interval selection (C1)\<close>

text \<open>
  C1, as amended. When \<^verbatim>\<open>uvc_fill_streaming_control\<close> selects a frame with a
  non-empty interval list, the \<^verbatim>\<open>dwFrameInterval\<close> it writes is the first entry
  of the list, in declared order, that is at least \<^verbatim>\<open>ival\<close>, or the last entry
  when no entry is. When the list is in ascending order, that is the minimum element of
  the frame's interval set that is at least \<^verbatim>\<open>ival\<close>, or the maximum element of
  the set when no element is.
\<close>

theorem C1_interval_selection:
  assumes "selected_frame cfg iformat iframe = Some frame" and "frame_ok frame"
  shows "\<exists>ctrl. uvc_fill_streaming_control cfg iformat iframe ival = Some ctrl \<and>
           dwFrameInterval ctrl =
             (case find (\<lambda>x. ival \<le> x) (intervals frame) of
                None \<Rightarrow> last (intervals frame) | Some x \<Rightarrow> x) \<and>
           (sorted (intervals frame) \<longrightarrow>
              dwFrameInterval ctrl =
                (if \<exists>x \<in> set (intervals frame). ival \<le> x
                 then Min {x \<in> set (intervals frame). ival \<le> x}
                 else Max (set (intervals frame))))"
proof -
  from assms(1) obtain format where fmt: "selected_format cfg iformat = Some format"
    by (auto simp: selected_frame_def split: option.splits)
  note fill = fill_selected [OF fmt assms(1) assms(2), of ival]
  have "sorted (intervals frame) \<Longrightarrow>
      (case find (\<lambda>x. ival \<le> x) (intervals frame) of
         None \<Rightarrow> last (intervals frame) | Some x \<Rightarrow> x) =
      (if \<exists>x \<in> set (intervals frame). ival \<le> x
       then Min {x \<in> set (intervals frame). ival \<le> x}
       else Max (set (intervals frame)))"
    using select_interval_sorted [OF assms(2), of ival] select_interval_find [OF assms(2), of ival]
    by simp
  with fill show ?thesis by simp
qed

lemma gadget_selected_1_1: "selected_frame gadget_config 1 1 = Some frame_360p"
  by (simp add: selected_frame_def selected_format_def gadget_config_def format_yuyv_def
      clamp_def array_read_def)

lemma frame_360p_ok: "frame_ok frame_360p"
  by (simp add: frame_ok_def frame_360p_def)

theorem C1_interval_selection_witness:
  "selected_frame gadget_config 1 1 = Some frame_360p \<and> frame_ok frame_360p \<and>
   sorted (intervals frame_360p) \<and>
   map_option dwFrameInterval (uvc_fill_streaming_control gadget_config 1 1 250000) = Some 333333 \<and>
   Min {x \<in> set (intervals frame_360p). 250000 \<le> x} = 333333"
proof -
  have s: "sorted (intervals frame_360p)" by (simp add: frame_360p_def)
  have e: "\<exists>x \<in> set (intervals frame_360p). 250000 \<le> x" by (simp add: frame_360p_def)
  from C1_interval_selection [OF gadget_selected_1_1 frame_360p_ok, of 250000]
  obtain ctrl where c: "uvc_fill_streaming_control gadget_config 1 1 250000 = Some ctrl"
    and f: "dwFrameInterval ctrl =
       (case find (\<lambda>x. 250000 \<le> x) (intervals frame_360p) of
          None \<Rightarrow> last (intervals frame_360p) | Some x \<Rightarrow> x)"
    and m: "sorted (intervals frame_360p) \<longrightarrow> dwFrameInterval ctrl =
       (if \<exists>x \<in> set (intervals frame_360p). 250000 \<le> x
        then Min {x \<in> set (intervals frame_360p). 250000 \<le> x}
        else Max (set (intervals frame_360p)))"
    by blast
  from f have v: "dwFrameInterval ctrl = 333333" by (simp add: frame_360p_def)
  from m s e have "dwFrameInterval ctrl = Min {x \<in> set (intervals frame_360p). 250000 \<le> x}"
    by simp
  with v c s show ?thesis
    using gadget_selected_1_1 frame_360p_ok by simp
qed

lemma config_unsorted_selected: "selected_frame config_unsorted 1 1 = Some frame_unsorted"
  by (simp add: selected_frame_def selected_format_def config_unsorted_def
      clamp_def array_read_def)

text \<open>
  C1 as stated fails on a list that is not ascending: with the intervals 500000, 166666
  and \<^verbatim>\<open>ival\<close> 100000 the block receives 500000, although 166666 is an element of
  the set that is at least \<^verbatim>\<open>ival\<close> and smaller.
\<close>

theorem C1_counterexample:
  "selected_frame config_unsorted 1 1 = Some frame_unsorted \<and> intervals frame_unsorted \<noteq> [] \<and>
   map_option dwFrameInterval (uvc_fill_streaming_control config_unsorted 1 1 100000) = Some 500000 \<and>
   166666 \<in> set (intervals frame_unsorted) \<and> (100000 :: u32) \<le> 166666 \<and> (166666 :: u32) < 500000"
proof -
  have ok: "frame_ok frame_unsorted" by (simp add: frame_ok_def frame_unsorted_def)
  have fmt: "selected_format config_unsorted 1 = Some (hd (formats config_unsorted))"
    by (simp add: selected_format_def config_unsorted_def clamp_def array_read_def)
  show ?thesis
    using fill_selected [OF fmt config_unsorted_selected ok, of 100000] config_unsorted_selected
    by (simp add: frame_unsorted_def)
qed

section \<open>Maximum video frame size (C3)\<close>

lemma unat_frame_size:
  "unat ((w::u32) * h * 2) = (unat w * unat h * 2) mod 2 ^ 32"
proof -
  have "unat (w * h * 2) = (unat (w * h) * 2) mod 2 ^ 32"
    by (simp add: unat_word_ariths)
  also have "\<dots> = ((unat w * unat h) mod 2 ^ 32 * 2) mod 2 ^ 32"
    by (simp add: unat_word_ariths)
  also have "\<dots> = (unat w * unat h * 2) mod 2 ^ 32"
    by (simp add: mod_mult_left_eq)
  finally show ?thesis .
qed

lemma fill_frame_size:
  assumes "selected_format cfg iformat = Some format"
    and "selected_frame cfg iformat iframe = Some frame"
    and "frame_ok frame"
    and "fcc format = V4L2_PIX_FMT_YUYV \<or> fcc format = V4L2_PIX_FMT_MJPEG"
  shows "\<exists>ctrl. uvc_fill_streaming_control cfg iformat iframe ival = Some ctrl \<and>
           dwMaxVideoFrameSize ctrl = width frame * height frame * 2 \<and>
           unat (dwMaxVideoFrameSize ctrl) = (unat (width frame) * unat (height frame) * 2) mod 2 ^ 32"
  using fill_selected [OF assms(1) assms(2) assms(3), of ival] assms(4)
  by (auto simp: unat_frame_size)

text \<open>
  C3, as amended. For the format and the frame that the fill selects, when the format's
  FourCC is YUYV or MJPEG and frame width times frame height times 2 is below \<open>2 ^ 32\<close>,
  the filled block's \<^verbatim>\<open>dwMaxVideoFrameSize\<close> is frame width times frame height
  times 2. (The code takes the product in \<^verbatim>\<open>unsigned int\<close> and stores it in a
  32-bit field.)
\<close>

theorem C3_max_video_frame_size:
  assumes "selected_format cfg iformat = Some format"
    and "selected_frame cfg iformat iframe = Some frame"
    and "frame_ok frame"
    and "fcc format = V4L2_PIX_FMT_YUYV \<or> fcc format = V4L2_PIX_FMT_MJPEG"
    and "unat (width frame) * unat (height frame) * 2 < 2 ^ 32"
  shows "\<exists>ctrl. uvc_fill_streaming_control cfg iformat iframe ival = Some ctrl \<and>
           unat (dwMaxVideoFrameSize ctrl) = unat (width frame) * unat (height frame) * 2"
  using fill_frame_size [OF assms(1) assms(2) assms(3) assms(4), of ival] assms(5)
  by auto

lemma gadget_format_1: "selected_format gadget_config 1 = Some format_yuyv"
  by (simp add: selected_format_def gadget_config_def clamp_def array_read_def)

lemma gadget_selected_1_2: "selected_frame gadget_config 1 2 = Some frame_720p"
  by (simp add: selected_frame_def gadget_format_1 format_yuyv_def clamp_def array_read_def)

lemma frame_720p_ok: "frame_ok frame_720p"
  by (simp add: frame_ok_def frame_720p_def)

theorem C3_max_video_frame_size_witness:
  "selected_format gadget_config 1 = Some format_yuyv \<and>
   selected_frame gadget_config 1 2 = Some frame_720p \<and> frame_ok frame_720p \<and>
   fcc format_yuyv = V4L2_PIX_FMT_YUYV \<and>
   unat (width frame_720p) * unat (height frame_720p) * 2 < 2 ^ 32 \<and>
   (\<exists>ctrl. uvc_fill_streaming_control gadget_config 1 2 0 = Some ctrl \<and>
      unat (dwMaxVideoFrameSize ctrl) = 1843200) \<and>
   unat (width frame_720p) * unat (height frame_720p) * 2 = 1843200"
proof -
  have y: "fcc format_yuyv = V4L2_PIX_FMT_YUYV \<or> fcc format_yuyv = V4L2_PIX_FMT_MJPEG"
    by (simp add: format_yuyv_def)
  have p: "unat (width frame_720p) * unat (height frame_720p) * 2 = 1843200"
    by (simp add: frame_720p_def)
  have b: "unat (width frame_720p) * unat (height frame_720p) * 2 < 2 ^ 32"
    unfolding p by simp
  from C3_max_video_frame_size [OF gadget_format_1 gadget_selected_1_2 frame_720p_ok y b, of 0]
  have "\<exists>ctrl. uvc_fill_streaming_control gadget_config 1 2 0 = Some ctrl \<and>
      unat (dwMaxVideoFrameSize ctrl) = 1843200"
    unfolding p .
  with p b show ?thesis
    using gadget_format_1 gadget_selected_1_2 frame_720p_ok
    by (simp add: format_yuyv_def)
qed

lemma large_format_1: "selected_format config_large 1 = Some format_large"
  by (simp add: selected_format_def config_large_def clamp_def array_read_def)

lemma large_selected_1_1: "selected_frame config_large 1 1 = Some frame_large"
  by (simp add: selected_frame_def large_format_1 format_large_def clamp_def array_read_def)

lemma frame_large_ok: "frame_ok frame_large"
  by (simp add: frame_ok_def frame_large_def)

text \<open>
  C3 as stated fails when the product does not fit 32 bits: for the YUYV frame of
  50000 by 50000 pixels, width times height times 2 is 5000000000, and the block's
  \<^verbatim>\<open>dwMaxVideoFrameSize\<close> is 705032704, which is 5000000000 minus \<open>2 ^ 32\<close>.
\<close>

theorem C3_counterexample:
  "selected_format config_large 1 = Some format_large \<and>
   selected_frame config_large 1 1 = Some frame_large \<and> frame_ok frame_large \<and>
   fcc format_large = V4L2_PIX_FMT_YUYV \<and>
   map_option (\<lambda>ctrl. unat (dwMaxVideoFrameSize ctrl))
     (uvc_fill_streaming_control config_large 1 1 0) = Some 705032704 \<and>
   unat (width frame_large) * unat (height frame_large) * 2 = 5000000000"
proof -
  have y: "fcc format_large = V4L2_PIX_FMT_YUYV \<or> fcc format_large = V4L2_PIX_FMT_MJPEG"
    by (simp add: format_large_def)
  have p: "unat (width frame_large) * unat (height frame_large) * 2 = 5000000000"
    by (simp add: frame_large_def)
  from fill_frame_size [OF large_format_1 large_selected_1_1 frame_large_ok y, of 0]
  obtain ctrl where f: "uvc_fill_streaming_control config_large 1 1 0 = Some ctrl"
    and "unat (dwMaxVideoFrameSize ctrl) = (unat (width frame_large) * unat (height frame_large) * 2) mod 2 ^ 32"
    by blast
  then have "unat (dwMaxVideoFrameSize ctrl) = 705032704"
    unfolding p by simp
  with f p show ?thesis
    using large_format_1 large_selected_1_1 frame_large_ok
    by (simp add: format_large_def)
qed

section \<open>GET\_MAX (C2)\<close>

lemma last_read:
  assumes len: "unat (n::u32) = length xs" and ne: "xs \<noteq> []" and small: "length xs < 2 ^ 31"
  shows "array_read xs (sint (clamp (- 1) 1 n) - 1) = Some (last xs)"
proof -
  have n1: "1 \<le> n" using len ne by (simp add: word_le_nat_alt Suc_le_eq)
  have "array_read xs (sint (clamp (- 1) 1 n) - 1) = Some (xs ! (unat (clamp (- 1) 1 n) - 1))"
    by (rule array_read_clamped [OF len ne small])
  then show ?thesis
    using len ne by (simp add: clamp_minus1 [OF n1] last_conv_nth)
qed

lemma selected_last:
  assumes "config_ok cfg"
  shows "selected_format cfg (- 1) = Some (last (formats cfg))"
    and "selected_frame cfg (- 1) (- 1) = Some (last (frames (last (formats cfg))))"
    and "frame_ok (last (frames (last (formats cfg))))"
proof -
  from assms have len: "unat (num_formats cfg) = length (formats cfg)"
    and ne: "formats cfg \<noteq> []" and small: "length (formats cfg) < 2 ^ 31"
    and all: "list_all format_ok (formats cfg)"
    by (simp_all add: config_ok_def)
  show f: "selected_format cfg (- 1) = Some (last (formats cfg))"
    unfolding selected_format_def by (rule last_read [OF len ne small])
  have "last (formats cfg) \<in> set (formats cfg)" using ne by simp
  with all have fok: "format_ok (last (formats cfg))" by (simp add: list_all_iff)
  then have len': "unat (num_frames (last (formats cfg))) = length (frames (last (formats cfg)))"
    and ne': "frames (last (formats cfg)) \<noteq> []"
    and small': "length (frames (last (formats cfg))) < 2 ^ 31"
    and all': "list_all frame_ok (frames (last (formats cfg)))"
    by (simp_all add: format_ok_def)
  show "selected_frame cfg (- 1) (- 1) = Some (last (frames (last (formats cfg))))"
    unfolding selected_frame_def using f by (simp add: last_read [OF len' ne' small'])
  have "last (frames (last (formats cfg))) \<in> set (frames (last (formats cfg)))"
    using ne' by simp
  with all' show "frame_ok (last (frames (last (formats cfg))))" by (simp add: list_all_iff)
qed

lemma find_uint_max_sorted:
  assumes s: "sorted xs" and ne: "xs \<noteq> []"
  shows "(case find (\<lambda>x. UINT_MAX \<le> x) xs of None \<Rightarrow> last xs | Some x \<Rightarrow> x) = Max (set xs)"
proof (cases "find (\<lambda>x. UINT_MAX \<le> x) xs")
  case None
  then show ?thesis using s ne by (simp add: last_sorted_Max)
next
  case (Some y)
  then have y: "y \<in> set xs" and ge: "UINT_MAX \<le> y"
    by (auto simp: find_Some_iff)
  have u: "UINT_MAX = - 1" by (simp add: UINT_MAX_def)
  from ge have "- 1 \<le> y" unfolding u .
  then have "y = - 1" by (simp only: word_order.extremum_unique)
  have "Max (set xs) = y"
  proof (rule Max_eqI)
    show "finite (set xs)" by simp
    show "y \<in> set xs" by (rule y)
    fix z assume "z \<in> set xs"
    show "z \<le> y" unfolding \<open>y = - 1\<close> by (rule max_word_max)
  qed
  with Some show ?thesis by simp
qed

lemma process_streaming_get_max:
  assumes "cs = UVC_VS_PROBE_CONTROL \<or> cs = UVC_VS_COMMIT_CONTROL"
  shows "uvc_events_process_streaming dev UVC_GET_MAX cs resp =
     (case uvc_fill_streaming_control (fc dev) (- 1) (- 1) UINT_MAX of
        None \<Rightarrow> None
      | Some ctrl \<Rightarrow> Some (dev, resp\<lparr>rd_length := 34, rd_data := store_ctrl (rd_data resp) ctrl\<rparr>))"
  using assms
  by (auto simp: uvc_events_process_streaming_def Let_def UVC_GET_MAX_def UVC_SET_CUR_def
      UVC_GET_CUR_def split: option.splits)

lemma unat_ucast_u8: "unat (w::u32) \<le> 255 \<Longrightarrow> unat (ucast w :: u8) = unat w"
proof -
  assume "unat w \<le> 255"
  then have "unat w < 2 ^ 8" by simp
  then show ?thesis by (simp add: unsigned_ucast_eq take_bit_nat_eq_self)
qed

text \<open>
  C2, as amended. For a GET\_MAX request on the streaming interface with selector PROBE
  or COMMIT, given a configuration with at least one format, each with at least one
  frame and one interval, with at most 255 formats and at most 255 frames in the last
  format, and with the last frame's interval list in ascending order: the response block
  is the fill for the last format and its last frame, \<^verbatim>\<open>bFormatIndex\<close> is the
  number of formats, \<^verbatim>\<open>bFrameIndex\<close> the number of frames of the last format, and
  \<^verbatim>\<open>dwFrameInterval\<close> the largest interval of that frame.
\<close>

theorem C2_get_max:
  assumes ok: "config_ok (fc dev)"
    and cs: "cs = UVC_VS_PROBE_CONTROL \<or> cs = UVC_VS_COMMIT_CONTROL"
    and nf: "length (formats (fc dev)) \<le> 255"
    and nr: "length (frames (last (formats (fc dev)))) \<le> 255"
    and s: "sorted (intervals (last (frames (last (formats (fc dev))))))"
  shows "\<exists>ctrl. uvc_events_process_streaming dev UVC_GET_MAX cs resp =
             Some (dev, resp\<lparr>rd_length := 34, rd_data := store_ctrl (rd_data resp) ctrl\<rparr>) \<and>
           uvc_fill_streaming_control (fc dev) (- 1) (- 1) UINT_MAX = Some ctrl \<and>
           selected_format (fc dev) (- 1) = Some (last (formats (fc dev))) \<and>
           selected_frame (fc dev) (- 1) (- 1) = Some (last (frames (last (formats (fc dev))))) \<and>
           unat (bFormatIndex ctrl) = length (formats (fc dev)) \<and>
           unat (bFrameIndex ctrl) = length (frames (last (formats (fc dev)))) \<and>
           dwFrameInterval ctrl = Max (set (intervals (last (frames (last (formats (fc dev)))))))"
proof -
  note sel = selected_last [OF ok]
  from ok have len: "unat (num_formats (fc dev)) = length (formats (fc dev))"
    and ne: "formats (fc dev) \<noteq> []" and all: "list_all format_ok (formats (fc dev))"
    by (simp_all add: config_ok_def)
  have "last (formats (fc dev)) \<in> set (formats (fc dev))" using ne by simp
  with all have "format_ok (last (formats (fc dev)))" by (simp add: list_all_iff)
  then have len': "unat (num_frames (last (formats (fc dev))))
        = length (frames (last (formats (fc dev))))"
    and ne': "frames (last (formats (fc dev))) \<noteq> []"
    by (simp_all add: format_ok_def)
  have n1: "1 \<le> num_formats (fc dev)" using len ne by (simp add: word_le_nat_alt Suc_le_eq)
  have n1': "1 \<le> num_frames (last (formats (fc dev)))"
    using len' ne' by (simp add: word_le_nat_alt Suc_le_eq)
  have ine: "intervals (last (frames (last (formats (fc dev))))) \<noteq> []"
    using sel(3) by (simp add: frame_ok_def)
  have a: "unat (ucast (clamp (- 1) 1 (num_formats (fc dev))) :: u8) = length (formats (fc dev))"
    using nf len by (simp only: clamp_minus1 [OF n1] unat_ucast_u8)
  have b: "unat (ucast (clamp (- 1) 1 (num_frames (last (formats (fc dev))))) :: u8)
      = length (frames (last (formats (fc dev))))"
    using nr len' by (simp only: clamp_minus1 [OF n1'] unat_ucast_u8)
  show ?thesis
    using fill_selected [OF sel(1) sel(2) sel(3), of UINT_MAX] sel(1) sel(2)
      find_uint_max_sorted [OF s ine] a b
    by (simp add: process_streaming_get_max [OF cs])
qed

lemma config_unsorted_ok: "config_ok config_unsorted"
  by (simp add: config_ok_def format_ok_def frame_ok_def config_unsorted_def frame_unsorted_def)

lemma gadget_config_ok: "config_ok gadget_config"
  by (simp add: config_ok_def format_ok_def frame_ok_def gadget_config_def format_yuyv_def
      frame_360p_def frame_720p_def)

lemma config_256_ok: "config_ok config_256"
  by (simp add: config_ok_def format_ok_def frame_ok_def config_256_def format_yuyv_def
      frame_360p_def frame_720p_def list_all_iff)

lemma fill_unsorted_max:
  "uvc_fill_streaming_control config_unsorted (- 1) (- 1) UINT_MAX =
     Some \<lparr>bmHint = 1, bFormatIndex = 1, bFrameIndex = 1, dwFrameInterval = 166666,
           wKeyFrameRate = 0, wPFrameRate = 0, wCompQuality = 0, wCompWindowSize = 0,
           wDelay = 0, dwMaxVideoFrameSize = 460800, dwMaxPayloadTransferSize = 2048,
           dwClockFrequency = 0, bmFramingInfo = 3, bPreferedVersion = 1,
           bMinVersion = 0, bMaxVersion = 1\<rparr>"
proof -
  note sel = selected_last [OF config_unsorted_ok]
  show ?thesis
    using fill_selected [OF sel(1) sel(2) sel(3), of UINT_MAX]
    by (simp add: config_unsorted_def frame_unsorted_def UINT_MAX_def clamp_minus1)
qed

lemma fill_256_max:
  "uvc_fill_streaming_control config_256 (- 1) (- 1) UINT_MAX =
     Some \<lparr>bmHint = 1, bFormatIndex = 0, bFrameIndex = 2, dwFrameInterval = 500000,
           wKeyFrameRate = 0, wPFrameRate = 0, wCompQuality = 0, wCompWindowSize = 0,
           wDelay = 0, dwMaxVideoFrameSize = 1843200, dwMaxPayloadTransferSize = 2048,
           dwClockFrequency = 0, bmFramingInfo = 3, bPreferedVersion = 1,
           bMinVersion = 0, bMaxVersion = 1\<rparr>"
proof -
  note sel = selected_last [OF config_256_ok]
  show ?thesis
    using fill_selected [OF sel(1) sel(2) sel(3), of UINT_MAX]
    by (simp add: config_256_def format_yuyv_def frame_720p_def UINT_MAX_def clamp_minus1)
qed

text \<open>
  C2 as stated fails twice. With the interval list 500000, 166666 the GET\_MAX block
  carries 166666, the last interval, not the largest. With 256 formats the block's
  8-bit \<^verbatim>\<open>bFormatIndex\<close> is 0, not 256.
\<close>

theorem C2_counterexample:
  "config_ok config_unsorted \<and>
   uvc_events_process_streaming (opened_device config_unsorted) UVC_GET_MAX UVC_VS_PROBE_CONTROL
       initial_resp =
     Some (opened_device config_unsorted,
           initial_resp\<lparr>rd_length := 34, rd_data := store_ctrl (rd_data initial_resp)
             \<lparr>bmHint = 1, bFormatIndex = 1, bFrameIndex = 1, dwFrameInterval = 166666,
              wKeyFrameRate = 0, wPFrameRate = 0, wCompQuality = 0, wCompWindowSize = 0,
              wDelay = 0, dwMaxVideoFrameSize = 460800, dwMaxPayloadTransferSize = 2048,
              dwClockFrequency = 0, bmFramingInfo = 3, bPreferedVersion = 1,
              bMinVersion = 0, bMaxVersion = 1\<rparr>\<rparr>) \<and>
   intervals (last (frames (last (formats config_unsorted)))) = [500000, 166666] \<and>
   (166666 :: u32) < 500000 \<and>
   config_ok config_256 \<and> num_formats config_256 = 256 \<and>
   uvc_events_process_streaming (opened_device config_256) UVC_GET_MAX UVC_VS_PROBE_CONTROL
       initial_resp =
     Some (opened_device config_256,
           initial_resp\<lparr>rd_length := 34, rd_data := store_ctrl (rd_data initial_resp)
             \<lparr>bmHint = 1, bFormatIndex = 0, bFrameIndex = 2, dwFrameInterval = 500000,
              wKeyFrameRate = 0, wPFrameRate = 0, wCompQuality = 0, wCompWindowSize = 0,
              wDelay = 0, dwMaxVideoFrameSize = 1843200, dwMaxPayloadTransferSize = 2048,
              dwClockFrequency = 0, bmFramingInfo = 3, bPreferedVersion = 1,
              bMinVersion = 0, bMaxVersion = 1\<rparr>\<rparr>)"
proof -
  have p: "UVC_VS_PROBE_CONTROL = UVC_VS_PROBE_CONTROL \<or> UVC_VS_PROBE_CONTROL = UVC_VS_COMMIT_CONTROL"
    by simp
  have f1: "fc (opened_device config_unsorted) = config_unsorted"
    and f2: "fc (opened_device config_256) = config_256"
    by (simp_all add: opened_device_def)
  have i: "intervals (last (frames (last (formats config_unsorted)))) = [500000, 166666]"
    by (simp add: config_unsorted_def frame_unsorted_def)
  have n: "num_formats config_256 = 256" by (simp add: config_256_def)
  show ?thesis
    by (simp add: process_streaming_get_max [OF p] f1 f2 fill_unsorted_max fill_256_max
        config_unsorted_ok config_256_ok i n)
qed

theorem C2_get_max_witness:
  "config_ok (fc (opened_device gadget_config)) \<and>
   length (formats (fc (opened_device gadget_config))) \<le> 255 \<and>
   length (frames (last (formats (fc (opened_device gadget_config))))) \<le> 255 \<and>
   sorted (intervals (last (frames (last (formats (fc (opened_device gadget_config))))))) \<and>
   uvc_events_process_streaming (opened_device gadget_config) UVC_GET_MAX UVC_VS_COMMIT_CONTROL
       initial_resp =
     Some (opened_device gadget_config,
           initial_resp\<lparr>rd_length := 34, rd_data := store_ctrl (rd_data initial_resp)
             \<lparr>bmHint = 1, bFormatIndex = 1, bFrameIndex = 2, dwFrameInterval = 500000,
              wKeyFrameRate = 0, wPFrameRate = 0, wCompQuality = 0, wCompWindowSize = 0,
              wDelay = 0, dwMaxVideoFrameSize = 1843200, dwMaxPayloadTransferSize = 2048,
              dwClockFrequency = 0, bmFramingInfo = 3, bPreferedVersion = 1,
              bMinVersion = 0, bMaxVersion = 1\<rparr>\<rparr>)"
proof -
  have f: "fc (opened_device gadget_config) = gadget_config"
    by (simp add: opened_device_def)
  have ok: "config_ok (fc (opened_device gadget_config))"
    by (simp add: f gadget_config_ok)
  have c: "UVC_VS_COMMIT_CONTROL = UVC_VS_PROBE_CONTROL \<or> UVC_VS_COMMIT_CONTROL = UVC_VS_COMMIT_CONTROL"
    by simp
  have nf: "length (formats (fc (opened_device gadget_config))) \<le> 255"
    unfolding f by (simp add: gadget_config_def)
  have nr: "length (frames (last (formats (fc (opened_device gadget_config))))) \<le> 255"
    unfolding f by (simp add: gadget_config_def format_yuyv_def)
  have s: "sorted (intervals (last (frames (last (formats (fc (opened_device gadget_config)))))))"
    unfolding f by (simp add: gadget_config_def format_yuyv_def frame_720p_def)
  from C2_get_max [OF ok c nf nr s, of initial_resp]
  obtain ctrl where r: "uvc_events_process_streaming (opened_device gadget_config) UVC_GET_MAX
        UVC_VS_COMMIT_CONTROL initial_resp =
          Some (opened_device gadget_config,
                initial_resp\<lparr>rd_length := 34, rd_data := store_ctrl (rd_data initial_resp) ctrl\<rparr>)"
    and fl: "uvc_fill_streaming_control (fc (opened_device gadget_config)) (- 1) (- 1) UINT_MAX
        = Some ctrl"
    by blast
  note sel = selected_last [OF gadget_config_ok]
  have "uvc_fill_streaming_control gadget_config (- 1) (- 1) UINT_MAX =
     Some \<lparr>bmHint = 1, bFormatIndex = 1, bFrameIndex = 2, dwFrameInterval = 500000,
           wKeyFrameRate = 0, wPFrameRate = 0, wCompQuality = 0, wCompWindowSize = 0,
           wDelay = 0, dwMaxVideoFrameSize = 1843200, dwMaxPayloadTransferSize = 2048,
           dwClockFrequency = 0, bmFramingInfo = 3, bPreferedVersion = 1,
           bMinVersion = 0, bMaxVersion = 1\<rparr>"
    using fill_selected [OF sel(1) sel(2) sel(3), of UINT_MAX]
    by (simp add: gadget_config_def format_yuyv_def frame_720p_def UINT_MAX_def clamp_minus1)
  with fl have "ctrl = \<lparr>bmHint = 1, bFormatIndex = 1, bFrameIndex = 2, dwFrameInterval = 500000,
           wKeyFrameRate = 0, wPFrameRate = 0, wCompQuality = 0, wCompWindowSize = 0,
           wDelay = 0, dwMaxVideoFrameSize = 1843200, dwMaxPayloadTransferSize = 2048,
           dwClockFrequency = 0, bmFramingInfo = 3, bPreferedVersion = 1,
           bMinVersion = 0, bMaxVersion = 1\<rparr>"
    by (simp add: f)
  with r ok nf nr s show ?thesis by simp
qed

section \<open>GET\_LEN, the control interface and out-of-sequence DATA (C5, C6, C7)\<close>

lemma process_streaming_get_len:
  assumes "cs = UVC_VS_PROBE_CONTROL \<or> cs = UVC_VS_COMMIT_CONTROL"
  shows "uvc_events_process_streaming dev UVC_GET_LEN cs resp =
     Some (dev, resp\<lparr>rd_length := 2, rd_data := (rd_data resp)[0 := 0x00, 1 := 0x22]\<rparr>)"
  using assms
  by (auto simp: uvc_events_process_streaming_def Let_def UVC_GET_LEN_def UVC_SET_CUR_def
      UVC_GET_CUR_def UVC_GET_MIN_def UVC_GET_MAX_def UVC_GET_DEF_def UVC_GET_RES_def)

text \<open>
  C5. A GET\_LEN request on the streaming interface with selector PROBE or COMMIT is
  answered with length 2 and the bytes 0x00, 0x22 in this order. Read in little-endian
  order these two bytes are 0x2200 = 8704, not 34; the value 34 in little-endian order
  is 0x22, 0x00.
\<close>

theorem C5_get_len_bytes:
  "uvc_events_process_streaming (opened_device gadget_config) UVC_GET_LEN UVC_VS_PROBE_CONTROL
       initial_resp =
     Some (opened_device gadget_config,
           \<lparr>rd_length = 2, rd_data = [0x00, 0x22] @ replicate 58 0\<rparr>) \<and>
   load_le16 ([0x00, 0x22] @ replicate 58 0) 0 = 8704 \<and>
   le16 34 = [0x22, 0x00]"
proof -
  have p: "UVC_VS_PROBE_CONTROL = UVC_VS_PROBE_CONTROL \<or> UVC_VS_PROBE_CONTROL = UVC_VS_COMMIT_CONTROL"
    by simp
  have r: "(replicate 60 (0::u8))[0 := 0x00, Suc 0 := 0x22] = [0x00, 0x22] @ replicate 58 0"
    by code_simp
  show ?thesis
    by (simp add: process_streaming_get_len [OF p] initial_resp_def r load_le16_def le16_def)
qed

lemma process_setup_control:
  assumes "control_request (fc dev) ctrl"
  shows "uvc_events_process_setup dev ctrl resp =
     Some (dev\<lparr>control := 0\<rparr>,
           resp\<lparr>rd_data := (rd_data resp)[0 := 0x03],
                rd_length := uint (ucast (wLength ctrl) :: u8)\<rparr>)"
  using assms
  by (simp add: control_request_def uvc_events_process_setup_def uvc_events_process_class_def
      uvc_events_process_control_def Let_def USB_TYPE_CLASS_def USB_TYPE_STANDARD_def)

lemma process_setup_control_length:
  assumes "control_request (fc dev) ctrl"
  shows "map_option (rd_length \<circ> snd) (uvc_events_process_setup dev ctrl resp)
           = Some (uint (wLength ctrl) mod 256)"
proof -
  have "uint (ucast (wLength ctrl) :: u8) = uint (wLength ctrl) mod 256"
    by (simp add: unsigned_ucast_eq take_bit_eq_mod)
  then show ?thesis by (simp add: process_setup_control [OF assms])
qed

text \<open>
  C6. A class-typed SETUP request addressed to the control interface is answered with
  first byte 0x03, and with the low byte of \<^verbatim>\<open>wLength\<close> as the response length:
  for \<^verbatim>\<open>wLength\<close> 256 the response length is 0, not 256.
\<close>

theorem C6_control_length_truncated:
  "control_request gadget_config
     \<lparr>bRequestType = 0xA1, bRequest = UVC_GET_CUR, wValue = 0x0200, wIndex = 0x0200, wLength = 256\<rparr> \<and>
   uvc_events_process (opened_device gadget_config)
     (UVC_EVENT_SETUP \<lparr>bRequestType = 0xA1, bRequest = UVC_GET_CUR, wValue = 0x0200,
                        wIndex = 0x0200, wLength = 256\<rparr>) =
     Some (opened_device gadget_config,
           Some \<lparr>rd_length = 0, rd_data = [0x03] @ replicate 59 0\<rparr>)"
proof -
  have c: "control_request (fc (opened_device gadget_config))
     \<lparr>bRequestType = 0xA1, bRequest = UVC_GET_CUR, wValue = 0x0200, wIndex = 0x0200, wLength = 256\<rparr>"
    by (simp add: control_request_def opened_device_def gadget_config_def USB_TYPE_MASK_def
        USB_TYPE_CLASS_def USB_RECIP_MASK_def USB_RECIP_INTERFACE_def)
  have r: "(replicate 60 (0::u8))[0 := 0x03] = [0x03] @ replicate 59 0"
    by code_simp
  have z: "(opened_device gadget_config)\<lparr>control := 0\<rparr> = opened_device gadget_config"
    by (simp add: opened_device_def)
  from c have c': "control_request gadget_config
     \<lparr>bRequestType = 0xA1, bRequest = UVC_GET_CUR, wValue = 0x0200, wIndex = 0x0200, wLength = 256\<rparr>"
    by (simp add: opened_device_def)
  show ?thesis
    using c' by (simp add: process_setup_control [OF c] initial_resp_def r z)
qed

text \<open>
  C7. A DATA event that arrives while \<^verbatim>\<open>dev->control\<close> is neither PROBE nor
  COMMIT leaves the device as it was (probe block, commit block, and the calls made on
  the stream) and sends no response.
\<close>

theorem C7_data_without_pending_control:
  assumes "control dev \<noteq> uint UVC_VS_PROBE_CONTROL"
    and "control dev \<noteq> uint UVC_VS_COMMIT_CONTROL"
  shows "uvc_events_process dev (UVC_EVENT_DATA data) = Some (dev, None)"
  using assms by (simp add: uvc_events_process_data_def)

theorem C7_data_without_pending_control_witness:
  "control (opened_device gadget_config) \<noteq> uint UVC_VS_PROBE_CONTROL \<and>
   control (opened_device gadget_config) \<noteq> uint UVC_VS_COMMIT_CONTROL \<and>
   uvc_events_process (opened_device gadget_config) (UVC_EVENT_DATA (payload 1 2 250000))
     = Some (opened_device gadget_config, None)"
proof -
  have a: "control (opened_device gadget_config) \<noteq> uint UVC_VS_PROBE_CONTROL"
    by (simp add: opened_device_def UVC_VS_PROBE_CONTROL_def)
  have b: "control (opened_device gadget_config) \<noteq> uint UVC_VS_COMMIT_CONTROL"
    by (simp add: opened_device_def UVC_VS_COMMIT_CONTROL_def)
  from C7_data_without_pending_control [OF a b, of "payload 1 2 250000"] a b
  show ?thesis by simp
qed

section \<open>GET\_CUR after GET\_MIN and GET\_MAX (C8)\<close>

lemma le32_bits:
  "(ucast (ucast w :: u8) :: u32) OR push_bit 8 (ucast (ucast (drop_bit 8 w) :: u8)) OR
     push_bit 16 (ucast (ucast (drop_bit 16 w) :: u8)) OR
     push_bit 24 (ucast (ucast (drop_bit 24 w) :: u8)) = w"
proof (rule bit_word_eqI)
  fix n
  assume "n < LENGTH(32)"
  then show "bit ((ucast (ucast w :: u8) :: u32) OR push_bit 8 (ucast (ucast (drop_bit 8 w) :: u8)) OR
      push_bit 16 (ucast (ucast (drop_bit 16 w) :: u8)) OR
      push_bit 24 (ucast (ucast (drop_bit 24 w) :: u8))) n \<longleftrightarrow> bit w n"
    by (cases "n < 8"; cases "n < 16"; cases "n < 24") (auto simp: bit_simps)
qed

lemma ctrl_bytes_fields:
  "(ctrl_bytes c @ xs) ! 2 = bFormatIndex c"
  "(ctrl_bytes c @ xs) ! 3 = bFrameIndex c"
  "load_le32 (ctrl_bytes c @ xs) 4 = dwFrameInterval c"
  by (simp_all add: ctrl_bytes_def le16_def le32_def load_le32_def le32_bits)

lemma length_ctrl_bytes: "length (ctrl_bytes c) = 34"
  by (simp add: ctrl_bytes_def le16_def le32_def)

lemma store_ctrl_initial: "store_ctrl (rd_data initial_resp) c = ctrl_bytes c @ replicate 26 0"
  by (simp add: store_ctrl_def initial_resp_def)

lemma find_always: "xs \<noteq> [] \<Longrightarrow> find (\<lambda>x. True) xs = Some (hd xs)"
  by (cases xs) simp_all

lemma selected_first:
  assumes "config_ok cfg"
  shows "selected_format cfg 1 = Some (hd (formats cfg))"
    and "selected_frame cfg 1 1 = Some (hd (frames (hd (formats cfg))))"
    and "frame_ok (hd (frames (hd (formats cfg))))"
proof -
  from assms have len: "unat (num_formats cfg) = length (formats cfg)"
    and ne: "formats cfg \<noteq> []" by (simp_all add: config_ok_def)
  have n1: "1 \<le> num_formats cfg" using len ne by (simp add: word_le_nat_alt Suc_le_eq)
  note f = selected_format_ok [OF assms, of 1]
  from f(1) show sf: "selected_format cfg 1 = Some (hd (formats cfg))"
    using ne by (simp add: clamp_one [OF n1] hd_conv_nth)
  from f(2) have fok: "format_ok (hd (formats cfg))"
    using ne by (simp add: clamp_one [OF n1] hd_conv_nth)
  then have len': "unat (num_frames (hd (formats cfg))) = length (frames (hd (formats cfg)))"
    and ne': "frames (hd (formats cfg)) \<noteq> []" by (simp_all add: format_ok_def)
  have n1': "1 \<le> num_frames (hd (formats cfg))"
    using len' ne' by (simp add: word_le_nat_alt Suc_le_eq)
  note r = selected_frame_of_format [OF sf fok, of 1]
  from r(1) show "selected_frame cfg 1 1 = Some (hd (frames (hd (formats cfg))))"
    using ne' by (simp add: clamp_one [OF n1'] hd_conv_nth)
  from r(2) show "frame_ok (hd (frames (hd (formats cfg))))"
    using ne' by (simp add: clamp_one [OF n1'] hd_conv_nth)
qed

text \<open>The block of \<^verbatim>\<open>uvc_fill_streaming_control(dev, ctrl, 1, 1, 0)\<close>.\<close>

lemma fill_default:
  assumes "config_ok cfg"
  shows "\<exists>ctrl. uvc_fill_streaming_control cfg 1 1 0 = Some ctrl \<and>
           bFormatIndex ctrl = 1 \<and> bFrameIndex ctrl = 1 \<and>
           dwFrameInterval ctrl = hd (intervals (hd (frames (hd (formats cfg)))))"
proof -
  note sel = selected_first [OF assms]
  from assms have len: "unat (num_formats cfg) = length (formats cfg)"
    and ne: "formats cfg \<noteq> []" and all: "list_all format_ok (formats cfg)"
    by (simp_all add: config_ok_def)
  have n1: "1 \<le> num_formats cfg" using len ne by (simp add: word_le_nat_alt Suc_le_eq)
  have "hd (formats cfg) \<in> set (formats cfg)" using ne by simp
  with all have "format_ok (hd (formats cfg))" by (simp add: list_all_iff)
  then have len': "unat (num_frames (hd (formats cfg))) = length (frames (hd (formats cfg)))"
    and ne': "frames (hd (formats cfg)) \<noteq> []" by (simp_all add: format_ok_def)
  have n1': "1 \<le> num_frames (hd (formats cfg))"
    using len' ne' by (simp add: word_le_nat_alt Suc_le_eq)
  have ine: "intervals (hd (frames (hd (formats cfg)))) \<noteq> []"
    using sel(3) by (simp add: frame_ok_def)
  show ?thesis
    using fill_selected [OF sel(1) sel(2) sel(3), of 0]
    by (simp add: clamp_one [OF n1] clamp_one [OF n1'] find_always [OF ine])
qed

lemma setup_streaming:
  assumes "streaming_request (fc dev) q req cs"
  shows "uvc_events_process_setup dev q resp =
           uvc_events_process_streaming (dev\<lparr>control := 0\<rparr>) req cs resp"
  using assms
  by (auto simp: streaming_request_def uvc_events_process_setup_def uvc_events_process_class_def
      Let_def USB_TYPE_CLASS_def USB_TYPE_STANDARD_def)

lemma process_streaming_get_min_probe:
  "uvc_events_process_streaming dev UVC_GET_MIN UVC_VS_PROBE_CONTROL resp =
     (case uvc_fill_streaming_control (fc dev) 1 1 0 of
        None \<Rightarrow> None
      | Some ctrl \<Rightarrow> Some (dev, resp\<lparr>rd_length := 34, rd_data := store_ctrl (rd_data resp) ctrl\<rparr>))"
  by (auto simp: uvc_events_process_streaming_def Let_def UVC_GET_MIN_def UVC_GET_MAX_def
      UVC_SET_CUR_def UVC_GET_CUR_def split: option.splits)

lemma process_streaming_get_cur_probe:
  "uvc_events_process_streaming dev UVC_GET_CUR UVC_VS_PROBE_CONTROL resp =
     Some (dev, resp\<lparr>rd_length := 34, rd_data := store_ctrl (rd_data resp) (probe dev)\<rparr>)"
  by (simp add: uvc_events_process_streaming_def Let_def UVC_SET_CUR_def UVC_GET_CUR_def)

text \<open>
  C8. After \<^verbatim>\<open>uvc_events_init\<close>, the SETUP events GET\_MIN, GET\_MAX and GET\_CUR
  on the PROBE selector, in this order, end with a GET\_CUR response that carries the
  block of the initialisation: \<^verbatim>\<open>bFormatIndex\<close> 1, \<^verbatim>\<open>bFrameIndex\<close> 1 and
  \<^verbatim>\<open>dwFrameInterval\<close> the first interval of the first frame of the first format.
  GET\_MIN and GET\_MAX leave the stored probe block as it was.
\<close>

theorem C8_get_cur_after_min_max:
  assumes ok: "config_ok (fc dev)"
    and qmin: "streaming_request (fc dev) qmin UVC_GET_MIN UVC_VS_PROBE_CONTROL"
    and qmax: "streaming_request (fc dev) qmax UVC_GET_MAX UVC_VS_PROBE_CONTROL"
    and qcur: "streaming_request (fc dev) qcur UVC_GET_CUR UVC_VS_PROBE_CONTROL"
  shows "\<exists>dev0 dev1 dev2 dev3 r1 r2 r3.
           uvc_events_init dev = Some dev0 \<and>
           uvc_events_process dev0 (UVC_EVENT_SETUP qmin) = Some (dev1, Some r1) \<and>
           uvc_events_process dev1 (UVC_EVENT_SETUP qmax) = Some (dev2, Some r2) \<and>
           uvc_events_process dev2 (UVC_EVENT_SETUP qcur) = Some (dev3, Some r3) \<and>
           probe dev1 = probe dev0 \<and> probe dev2 = probe dev0 \<and> probe dev3 = probe dev0 \<and>
           commit dev3 = commit dev0 \<and>
           rd_length r3 = 34 \<and> rd_data r3 = ctrl_bytes (probe dev0) @ replicate 26 0 \<and>
           bFormatIndex (probe dev0) = 1 \<and> bFrameIndex (probe dev0) = 1 \<and>
           dwFrameInterval (probe dev0) = hd (intervals (hd (frames (hd (formats (fc dev)))))) \<and>
           rd_data r3 ! 2 = 1 \<and> rd_data r3 ! 3 = 1 \<and>
           load_le32 (rd_data r3) 4 = hd (intervals (hd (frames (hd (formats (fc dev))))))"
proof -
  from fill_default [OF ok] obtain blk
    where fill: "uvc_fill_streaming_control (fc dev) 1 1 0 = Some blk"
      and b1: "bFormatIndex blk = 1" and b2: "bFrameIndex blk = 1"
      and b3: "dwFrameInterval blk = hd (intervals (hd (frames (hd (formats (fc dev))))))"
    by blast
  from selected_last [OF ok] have "frame_ok (last (frames (last (formats (fc dev)))))"
    and "selected_format (fc dev) (- 1) = Some (last (formats (fc dev)))"
    and "selected_frame (fc dev) (- 1) (- 1) = Some (last (frames (last (formats (fc dev)))))"
    by simp_all
  from fill_selected [OF this(2) this(3) this(1), of UINT_MAX]
  obtain mx where fillmax: "uvc_fill_streaming_control (fc dev) (- 1) (- 1) UINT_MAX = Some mx"
    by blast
  define dev0 where "dev0 = dev\<lparr>probe := blk, commit := blk\<rparr>"
  define dev1 where "dev1 = dev0\<lparr>control := 0\<rparr>"
  have fc0: "fc dev0 = fc dev" and fc1: "fc dev1 = fc dev"
    and p0: "probe dev0 = blk" and p1: "probe dev1 = blk"
    and c0: "commit dev0 = blk" and c1: "commit dev1 = blk"
    and d11: "dev1\<lparr>control := 0\<rparr> = dev1"
    by (simp_all add: dev0_def dev1_def)
  have i: "uvc_events_init dev = Some dev0"
    by (simp add: uvc_events_init_def fill dev0_def)
  have pp: "UVC_VS_PROBE_CONTROL = UVC_VS_PROBE_CONTROL \<or> UVC_VS_PROBE_CONTROL = UVC_VS_COMMIT_CONTROL"
    by simp
  have e1: "uvc_events_process dev0 (UVC_EVENT_SETUP qmin) =
      Some (dev1, Some (initial_resp\<lparr>rd_length := 34, rd_data := store_ctrl (rd_data initial_resp) blk\<rparr>))"
    using qmin
    by (simp add: setup_streaming [of dev0 qmin UVC_GET_MIN UVC_VS_PROBE_CONTROL] fc0
        process_streaming_get_min_probe fill dev1_def [symmetric] fc1)
  have e2: "uvc_events_process dev1 (UVC_EVENT_SETUP qmax) =
      Some (dev1, Some (initial_resp\<lparr>rd_length := 34, rd_data := store_ctrl (rd_data initial_resp) mx\<rparr>))"
    using qmax
    by (simp add: setup_streaming [of dev1 qmax UVC_GET_MAX UVC_VS_PROBE_CONTROL] fc1 d11
        process_streaming_get_max [OF pp] fillmax)
  have e3: "uvc_events_process dev1 (UVC_EVENT_SETUP qcur) =
      Some (dev1, Some (initial_resp\<lparr>rd_length := 34, rd_data := store_ctrl (rd_data initial_resp) blk\<rparr>))"
    using qcur
    by (simp add: setup_streaming [of dev1 qcur UVC_GET_CUR UVC_VS_PROBE_CONTROL] fc1 d11
        process_streaming_get_cur_probe p1)
  define r3 where
    "r3 = initial_resp\<lparr>rd_length := 34, rd_data := store_ctrl (rd_data initial_resp) blk\<rparr>"
  have rest: "probe dev1 = probe dev0 \<and> probe dev1 = probe dev0 \<and> probe dev1 = probe dev0 \<and>
      commit dev1 = commit dev0 \<and>
      rd_length r3 = 34 \<and> rd_data r3 = ctrl_bytes (probe dev0) @ replicate 26 0 \<and>
      bFormatIndex (probe dev0) = 1 \<and> bFrameIndex (probe dev0) = 1 \<and>
      dwFrameInterval (probe dev0) = hd (intervals (hd (frames (hd (formats (fc dev)))))) \<and>
      rd_data r3 ! 2 = 1 \<and> rd_data r3 ! 3 = 1 \<and>
      load_le32 (rd_data r3) 4 = hd (intervals (hd (frames (hd (formats (fc dev))))))"
    by (simp add: r3_def p0 p1 c0 c1 b1 b2 b3 store_ctrl_initial ctrl_bytes_fields)
  from i e1 e2 e3 [folded r3_def] rest show ?thesis by blast
qed

theorem C8_get_cur_after_min_max_witness:
  "config_ok (fc (opened_device gadget_config)) \<and>
   streaming_request (fc (opened_device gadget_config))
     \<lparr>bRequestType = 0xA1, bRequest = UVC_GET_MIN, wValue = 0x0100, wIndex = 0x0001, wLength = 34\<rparr>
     UVC_GET_MIN UVC_VS_PROBE_CONTROL \<and>
   streaming_request (fc (opened_device gadget_config))
     \<lparr>bRequestType = 0xA1, bRequest = UVC_GET_MAX, wValue = 0x0100, wIndex = 0x0001, wLength = 34\<rparr>
     UVC_GET_MAX UVC_VS_PROBE_CONTROL \<and>
   streaming_request (fc (opened_device gadget_config))
     \<lparr>bRequestType = 0xA1, bRequest = UVC_GET_CUR, wValue = 0x0100, wIndex = 0x0001, wLength = 34\<rparr>
     UVC_GET_CUR UVC_VS_PROBE_CONTROL \<and>
   (\<exists>dev0 dev1 dev2 dev3 r1 r2 r3.
      uvc_events_init (opened_device gadget_config) = Some dev0 \<and>
      uvc_events_process dev0 (UVC_EVENT_SETUP
        \<lparr>bRequestType = 0xA1, bRequest = UVC_GET_MIN, wValue = 0x0100, wIndex = 0x0001, wLength = 34\<rparr>)
        = Some (dev1, Some r1) \<and>
      uvc_events_process dev1 (UVC_EVENT_SETUP
        \<lparr>bRequestType = 0xA1, bRequest = UVC_GET_MAX, wValue = 0x0100, wIndex = 0x0001, wLength = 34\<rparr>)
        = Some (dev2, Some r2) \<and>
      uvc_events_process dev2 (UVC_EVENT_SETUP
        \<lparr>bRequestType = 0xA1, bRequest = UVC_GET_CUR, wValue = 0x0100, wIndex = 0x0001, wLength = 34\<rparr>)
        = Some (dev3, Some r3) \<and>
      probe dev3 = probe dev0 \<and> rd_length r3 = 34 \<and>
      rd_data r3 ! 2 = 1 \<and> rd_data r3 ! 3 = 1 \<and> load_le32 (rd_data r3) 4 = 166666)"
proof -
  have f: "fc (opened_device gadget_config) = gadget_config"
    by (simp add: opened_device_def)
  have ok: "config_ok (fc (opened_device gadget_config))"
    by (simp add: f gadget_config_ok)
  have q: "streaming_request (fc (opened_device gadget_config))
     \<lparr>bRequestType = 0xA1, bRequest = r, wValue = 0x0100, wIndex = 0x0001, wLength = 34\<rparr>
     r UVC_VS_PROBE_CONTROL" for r
    unfolding f
    by (simp add: streaming_request_def gadget_config_def USB_TYPE_MASK_def USB_TYPE_CLASS_def
        USB_RECIP_MASK_def USB_RECIP_INTERFACE_def UVC_VS_PROBE_CONTROL_def)
  have h: "hd (intervals (hd (frames (hd (formats (fc (opened_device gadget_config))))))) = 166666"
    unfolding f by (simp add: gadget_config_def format_yuyv_def frame_360p_def)
  from C8_get_cur_after_min_max [OF ok q [of UVC_GET_MIN] q [of UVC_GET_MAX] q [of UVC_GET_CUR]]
  show ?thesis
    unfolding h using ok q [of UVC_GET_MIN] q [of UVC_GET_MAX] q [of UVC_GET_CUR] by blast
qed

section \<open>Correct rounding of the double-precision division\<close>

lemma bit_length_bounds:
  "0 < n \<Longrightarrow> 2 ^ (bit_length n - 1) \<le> n \<and> n < 2 ^ bit_length n"
proof (induction n rule: bit_length.induct)
  case (1 n)
  show ?case
  proof (cases "n div 2 = 0")
    case True
    with "1.prems" have "n = 1" by auto
    then show ?thesis by (simp add: bit_length.simps)
  next
    case False
    then have pos: "0 < n div 2" by simp
    from "1.prems" have n0: "n \<noteq> 0" by simp
    from "1.IH" [OF n0 pos]
    have lo: "2 ^ (bit_length (n div 2) - 1) \<le> n div 2" and hi: "n div 2 < 2 ^ bit_length (n div 2)"
      by simp_all
    have bl: "bit_length n = Suc (bit_length (n div 2))"
      using n0 by (subst bit_length.simps) simp
    have bpos: "0 < bit_length (n div 2)"
      using pos by (subst bit_length.simps) simp
    then have e: "(2::nat) ^ bit_length (n div 2) = 2 * 2 ^ (bit_length (n div 2) - 1)"
      by (cases "bit_length (n div 2)") simp_all
    from lo have "2 * 2 ^ (bit_length (n div 2) - 1) \<le> n" by linarith
    moreover from hi have "n < 2 * 2 ^ bit_length (n div 2)" by linarith
    ultimately show ?thesis using bl e by simp
  qed
qed

lemma div_round_even_nearest:
  assumes "0 < b"
  shows "\<bar>(of_nat (div_round_even a b) :: rat) - of_nat a / of_nat b\<bar> \<le> 1 / 2"
proof -
  define q r where "q = a div b" and "r = a mod b"
  have a: "a = q * b + r" and rb: "r < b" using assms by (simp_all add: q_def r_def)
  have bpos: "(0::rat) < of_nat b" using assms by simp
  have quo: "(of_nat a :: rat) / of_nat b = of_nat q + of_nat r / of_nat b"
    using bpos by (simp add: a field_simps)
  have f0: "(0::rat) \<le> of_nat r / of_nat b" by simp
  have f1: "(of_nat r :: rat) / of_nat b < 1" using rb bpos by simp
  consider "2 * r < b" | "b < 2 * r" | "2 * r = b" by linarith
  then show ?thesis
  proof cases
    case 1
    then have "(of_nat r :: rat) / of_nat b \<le> 1 / 2"
      using bpos by (simp add: field_simps)
    moreover have "div_round_even a b = q" using 1 by (simp add: div_round_even_def q_def r_def Let_def)
    ultimately show ?thesis using f0 by (simp add: quo)
  next
    case 2
    then have "(1::rat) / 2 \<le> of_nat r / of_nat b"
      using bpos by (simp add: field_simps)
    moreover have "div_round_even a b = q + 1" using 2 by (simp add: div_round_even_def q_def r_def Let_def)
    ultimately show ?thesis using f1 by (simp add: quo)
  next
    case 3
    then have half: "(of_nat r :: rat) / of_nat b = 1 / 2"
      using bpos by (simp add: field_simps)
    have "div_round_even a b = q \<or> div_round_even a b = q + 1"
      using 3 by (simp add: div_round_even_def q_def r_def Let_def)
    then show ?thesis
    proof
      assume "div_round_even a b = q"
      then have "(of_nat (div_round_even a b) :: rat) - of_nat a / of_nat b = - (1 / 2)"
        unfolding quo half by simp
      then show ?thesis by simp
    next
      assume "div_round_even a b = q + 1"
      then have "(of_nat (div_round_even a b) :: rat) - of_nat a / of_nat b = 1 / 2"
        unfolding quo half by simp
      then show ?thesis by simp
    qed
  qed
qed

lemma pow2_add: "(2::rat) powi (i + j) = 2 powi i * 2 powi j"
  by (simp add: power_int_add)

lemma pow2_pos: "(0::rat) < 2 powi i"
  by simp

lemma scaled_quotient:
  assumes "0 < n"
  shows "(of_nat (m * 2 ^ nat s) :: rat) / of_nat (n * 2 ^ nat (- s)) = of_nat m / of_nat n * 2 powi s"
proof (cases "0 \<le> s")
  case True
  then have "(2::rat) powi s = 2 ^ nat s" by (simp add: power_int_def)
  moreover from True have "nat (- s) = 0" by simp
  ultimately show ?thesis by simp
next
  case False
  then have e: "(2::rat) powi s = inverse (2 ^ nat (- s))"
    by (simp add: power_int_def power_one_over inverse_eq_divide)
  from False have z: "nat s = 0" by simp
  show ?thesis unfolding e z by (simp add: field_simps)
qed

lemma scaled_test:
  assumes "0 < m2"
  shows "m2 * 2 ^ nat d \<le> m1 * 2 ^ nat (- d) \<longleftrightarrow> (2::rat) powi d \<le> of_nat m1 / of_nat m2"
proof -
  have pos: "(0::rat) < of_nat m2" using assms by simp
  have "m2 * 2 ^ nat d \<le> m1 * 2 ^ nat (- d) \<longleftrightarrow>
      (of_nat (m2 * 2 ^ nat d) :: rat) \<le> of_nat (m1 * 2 ^ nat (- d))"
    by (simp only: of_nat_le_iff)
  also have "\<dots> \<longleftrightarrow> (of_nat m2 :: rat) * 2 ^ nat d \<le> of_nat m1 * 2 ^ nat (- d)"
    by simp
  also have "\<dots> \<longleftrightarrow> (2::rat) powi d \<le> of_nat m1 / of_nat m2"
  proof (cases "0 \<le> d")
    case True
    then have "(2::rat) powi d = 2 ^ nat d" by (simp add: power_int_def)
    moreover from True have "nat (- d) = 0" by simp
    ultimately show ?thesis using pos by (simp add: field_simps)
  next
    case False
    then have e: "(2::rat) powi d = inverse (2 ^ nat (- d))"
      by (simp add: power_int_def power_one_over inverse_eq_divide)
    from False have z: "nat d = 0" by simp
    show ?thesis unfolding e z using pos by (simp add: field_simps)
  qed
  finally show ?thesis .
qed

lemma bit_length_rat:
  assumes "0 < n"
  shows "(2::rat) powi (int (bit_length n) - 1) \<le> of_nat n" and "(of_nat n :: rat) < 2 powi int (bit_length n)"
proof -
  from bit_length_bounds [OF assms]
  have lo: "2 ^ (bit_length n - 1) \<le> n" and hi: "n < 2 ^ bit_length n" by simp_all
  have "0 < bit_length n" using assms by (subst bit_length.simps) simp
  then have "int (bit_length n) - 1 = int (bit_length n - 1)" by simp
  then have "(2::rat) powi (int (bit_length n) - 1) = of_nat (2 ^ (bit_length n - 1))"
    by (simp only: power_int_of_nat) simp
  also have "\<dots> \<le> of_nat n" using lo by (simp only: of_nat_le_iff)
  finally show "(2::rat) powi (int (bit_length n) - 1) \<le> of_nat n" .
  have "(of_nat n :: rat) < of_nat (2 ^ bit_length n)" using hi by (simp only: of_nat_less_iff)
  then show "(of_nat n :: rat) < 2 powi int (bit_length n)" by simp
qed

lemma nearest_in_binade:
  assumes near: "\<bar>(of_nat m :: rat) - q\<bar> \<le> 1 / 2" and lo: "2 ^ 52 \<le> q" and hi: "q < 2 ^ 53"
  shows "2 ^ 52 \<le> m \<and> m \<le> 2 ^ 53"
proof -
  from near lo have "(2 ^ 52 :: rat) - 1 < of_nat m" by linarith
  then have "(of_nat (2 ^ 52 - 1) :: rat) < of_nat m" by simp
  then have "2 ^ 52 - 1 < m" by (simp only: of_nat_less_iff)
  moreover from near hi have "(of_nat m :: rat) < 2 ^ 53 + 1" by linarith
  then have "(of_nat m :: rat) < of_nat (2 ^ 53 + 1)" by simp
  then have "m < 2 ^ 53 + 1" by (simp only: of_nat_less_iff)
  ultimately show ?thesis by simp
qed

lemma double_div_unfold:
  assumes m1: "0 < m1" and m2: "0 < m2"
  obtains l m where
    "2 powi l \<le> (of_nat m1 / of_nat m2 :: rat)"
    "(of_nat m1 / of_nat m2 :: rat) < 2 powi (l + 1)"
    "\<bar>(of_nat m :: rat) - of_nat m1 / of_nat m2 * 2 powi (52 - l)\<bar> \<le> 1 / 2"
    "double_div (m1, e1) (m2, e2) =
       (if - 1074 \<le> e1 - e2 - (52 - l) \<and> e1 - e2 - (52 - l) < 971
        then Some (m, e1 - e2 - (52 - l)) else None)"
proof -
  define r :: rat where "r = of_nat m1 / of_nat m2"
  define d where "d = int (bit_length m1) - int (bit_length m2)"
  define l where "l = (if m2 * 2 ^ nat d \<le> m1 * 2 ^ nat (- d) then d else d - 1)"
  define s where "s = 52 - l"
  define a where "a = m1 * 2 ^ nat s"
  define b where "b = m2 * 2 ^ nat (- s)"
  have p2: "(0::rat) < of_nat m2" using m2 by simp
  have bpos: "0 < b" using m2 by (simp add: b_def)
  have q: "(of_nat a :: rat) / of_nat b = r * 2 powi s"
    unfolding a_def b_def r_def by (rule scaled_quotient [OF m2])
  note b1 = bit_length_rat [OF m1] and b2 = bit_length_rat [OF m2]
  have up: "r < 2 powi (d + 1)"
  proof -
    have "of_nat m1 < (2::rat) powi int (bit_length m1)" by (rule b1(2))
    also have "\<dots> = 2 powi (d + 1) * 2 powi (int (bit_length m2) - 1)"
    proof -
      have "d + 1 + (int (bit_length m2) - 1) = int (bit_length m1)" by (simp add: d_def)
      then show ?thesis by (simp only: pow2_add [symmetric])
    qed
    also have "\<dots> \<le> 2 powi (d + 1) * of_nat m2"
      using b2(1) by (simp add: mult_left_mono)
    finally show ?thesis using p2 by (simp add: r_def field_simps)
  qed
  have down: "2 powi (d - 1) < r"
  proof -
    have "2 powi (d - 1) * of_nat m2 < (2::rat) powi (d - 1) * 2 powi int (bit_length m2)"
      using b2(2) by (simp add: mult_strict_left_mono)
    also have "\<dots> = 2 powi (int (bit_length m1) - 1)"
    proof -
      have "d - 1 + int (bit_length m2) = int (bit_length m1) - 1" by (simp add: d_def)
      then show ?thesis by (simp only: pow2_add [symmetric])
    qed
    also have "\<dots> \<le> of_nat m1" by (rule b1(1))
    finally show ?thesis using p2 by (simp add: r_def field_simps)
  qed
  have range: "2 powi l \<le> r \<and> r < 2 powi (l + 1)"
  proof (cases "m2 * 2 ^ nat d \<le> m1 * 2 ^ nat (- d)")
    case True
    then have "l = d" by (simp add: l_def)
    moreover from True have "2 powi d \<le> r"
      unfolding r_def by (simp only: scaled_test [OF m2])
    ultimately show ?thesis using up by simp
  next
    case False
    then have "l = d - 1" by (simp add: l_def)
    moreover from False have "r < 2 powi d"
      unfolding r_def by (simp only: scaled_test [OF m2] not_le)
    ultimately show ?thesis using down by simp
  qed
  have near: "\<bar>(of_nat (div_round_even a b) :: rat) - r * 2 powi (52 - l)\<bar> \<le> 1 / 2"
    using div_round_even_nearest [OF bpos, of a] by (simp only: q s_def)
  have res: "double_div (m1, e1) (m2, e2) =
       (if - 1074 \<le> e1 - e2 - (52 - l) \<and> e1 - e2 - (52 - l) < 971
        then Some (div_round_even a b, e1 - e2 - (52 - l)) else None)"
    using m1 m2 by (simp add: double_div_def Let_def d_def l_def s_def a_def b_def)
  from range near res show ?thesis
    unfolding r_def by (intro that [of l "div_round_even a b"]) simp_all
qed

lemma pow2_less_exp: "(2::rat) powi i < 2 powi j \<Longrightarrow> i < j"
proof (rule ccontr)
  assume lt: "(2::rat) powi i < 2 powi j" and "\<not> i < j"
  then have "j \<le> i" by simp
  then have "(2::rat) powi j \<le> 2 powi i" by (rule power_int_increasing) simp
  with lt show False by simp
qed

lemma double_div_defined:
  assumes m1: "0 < m1" and m2: "0 < m2"
    and lo: "2 powi lo < (of_nat m1 / of_nat m2 :: rat)"
    and hi: "(of_nat m1 / of_nat m2 :: rat) < 2 powi hi"
    and elo: "- 1074 \<le> e1 - e2 - 52 + lo" and ehi: "e1 - e2 - 52 + hi \<le> 971"
  obtains m e where "double_div (m1, e1) (m2, e2) = Some (m, e)"
    and "e1 - e2 - 52 + lo \<le> e" and "e < e1 - e2 - 52 + hi"
proof -
  from double_div_unfold [OF m1 m2, of e1 e2] obtain l m where
    a: "2 powi l \<le> (of_nat m1 / of_nat m2 :: rat)"
    and b: "(of_nat m1 / of_nat m2 :: rat) < 2 powi (l + 1)"
    and r: "double_div (m1, e1) (m2, e2) =
       (if - 1074 \<le> e1 - e2 - (52 - l) \<and> e1 - e2 - (52 - l) < 971
        then Some (m, e1 - e2 - (52 - l)) else None)"
    by blast
  from lo b have "(2::rat) powi lo < 2 powi (l + 1)" by (rule less_trans)
  then have l1: "lo \<le> l" using pow2_less_exp by fastforce
  from a hi have "(2::rat) powi l < 2 powi hi" by (rule le_less_trans)
  then have l2: "l < hi" by (rule pow2_less_exp)
  from l1 l2 elo ehi have "double_div (m1, e1) (m2, e2) = Some (m, e1 - e2 - (52 - l))"
    by (simp add: r)
  then show ?thesis using l1 l2 by (intro that [of m "e1 - e2 - (52 - l)"]) simp_all
qed

text \<open>
  \<open>double_div\<close> rounds correctly: the significand of the result has 53 bits (or is
  \<open>2 ^ 53\<close>, the next power of two), and the result differs from the exact quotient
  by at most half a unit in its last place, hence by at most the fraction
  \<open>1 / 2 ^ 53\<close> of the exact quotient.
\<close>

lemma double_div_relative:
  assumes m1: "0 < m1" and m2: "0 < m2"
    and res: "double_div (m1, e1) (m2, e2) = Some (m, e)"
  shows "\<bar>double_val (m, e) - double_val (m1, e1) / double_val (m2, e2)\<bar>
           \<le> double_val (m1, e1) / double_val (m2, e2) / 2 ^ 53"
    and "2 ^ 52 \<le> m" and "m \<le> 2 ^ 53"
    and "\<bar>double_val (m, e) - double_val (m1, e1) / double_val (m2, e2)\<bar> \<le> 2 powi e / 2"
proof -
  define r :: rat where "r = of_nat m1 / of_nat m2"
  from double_div_unfold [OF m1 m2, of e1 e2] obtain l m' where
    a: "2 powi l \<le> r" and b: "r < 2 powi (l + 1)"
    and n: "\<bar>(of_nat m' :: rat) - r * 2 powi (52 - l)\<bar> \<le> 1 / 2"
    and d: "double_div (m1, e1) (m2, e2) =
       (if - 1074 \<le> e1 - e2 - (52 - l) \<and> e1 - e2 - (52 - l) < 971
        then Some (m', e1 - e2 - (52 - l)) else None)"
    unfolding r_def by blast
  from res d have m: "m = m'" and e: "e = e1 - e2 - (52 - l)"
    by (simp_all split: if_splits)
  define q where "q = r * 2 powi (52 - l)"
  have qlo: "2 ^ 52 \<le> q"
  proof -
    have "(2::rat) ^ 52 = 2 powi (l + (52 - l))" by simp
    also have "\<dots> = 2 powi l * 2 powi (52 - l)" by (rule pow2_add)
    also have "\<dots> \<le> r * 2 powi (52 - l)" using a by (simp add: mult_right_mono)
    finally show ?thesis by (simp add: q_def)
  qed
  have qhi: "q < 2 ^ 53"
  proof -
    have "r * 2 powi (52 - l) < 2 powi (l + 1) * 2 powi (52 - l)"
      using b by (simp add: mult_strict_right_mono)
    also have "\<dots> = 2 powi (l + 1 + (52 - l))" by (rule pow2_add [symmetric])
    also have "\<dots> = 2 ^ 53" by simp
    finally show ?thesis by (simp add: q_def)
  qed
  have near: "\<bar>(of_nat m :: rat) - q\<bar> \<le> 1 / 2" using n by (simp add: m q_def)
  from nearest_in_binade [OF near qlo qhi] show "2 ^ 52 \<le> m" and "m \<le> 2 ^ 53" by simp_all
  have exact: "double_val (m1, e1) / double_val (m2, e2) = q * 2 powi e"
  proof -
    have "double_val (m1, e1) / double_val (m2, e2) = r * (2 powi e1 / 2 powi e2)"
      by (simp add: double_val_def r_def)
    also have "2 powi e1 / 2 powi e2 = (2::rat) powi (e1 - e2)"
      by (simp add: power_int_diff)
    also have "(2::rat) powi (e1 - e2) = 2 powi ((52 - l) + e)" by (simp add: e)
    also have "\<dots> = 2 powi (52 - l) * 2 powi e" by (rule pow2_add)
    finally show ?thesis by (simp add: q_def)
  qed
  have "double_val (m, e) - double_val (m1, e1) / double_val (m2, e2)
      = (of_nat m - q) * 2 powi e"
    unfolding exact by (simp add: double_val_def algebra_simps)
  then have "\<bar>double_val (m, e) - double_val (m1, e1) / double_val (m2, e2)\<bar>
      = \<bar>of_nat m - q\<bar> * 2 powi e"
    by (simp add: abs_mult)
  also have "\<dots> \<le> 1 / 2 * 2 powi e"
    using near by (rule mult_right_mono) simp
  finally have half: "\<bar>double_val (m, e) - double_val (m1, e1) / double_val (m2, e2)\<bar>
      \<le> 1 / 2 * 2 powi e" .
  then show "\<bar>double_val (m, e) - double_val (m1, e1) / double_val (m2, e2)\<bar> \<le> 2 powi e / 2"
    by simp
  note half
  also have "1 / 2 * 2 powi e = (2 ^ 52 * 2 powi e / 2 ^ 53 :: rat)" by simp
  also have "\<dots> \<le> q * 2 powi e / 2 ^ 53"
    using qlo by (simp add: divide_right_mono mult_right_mono)
  finally show "\<bar>double_val (m, e) - double_val (m1, e1) / double_val (m2, e2)\<bar>
           \<le> double_val (m1, e1) / double_val (m2, e2) / 2 ^ 53"
    by (simp only: exact)
qed

section \<open>The frame rate of line 405 against integer division\<close>

lemma relative_bounds:
  fixes v t :: rat
  assumes "\<bar>v - t\<bar> \<le> t / 2 ^ 53"
  shows "t * (1 - 1 / 2 ^ 53) \<le> v" and "v \<le> t * (1 + 1 / 2 ^ 53)"
proof -
  have "t - v \<le> \<bar>v - t\<bar>" by simp
  then have "t - v \<le> t / 2 ^ 53" using assms by (rule order_trans)
  then show "t * (1 - 1 / 2 ^ 53) \<le> v" by (simp add: algebra_simps)
  have "v - t \<le> \<bar>v - t\<bar>" by simp
  then have "v - t \<le> t / 2 ^ 53" using assms by (rule order_trans)
  then show "v \<le> t * (1 + 1 / 2 ^ 53)" by (simp add: algebra_simps)
qed

lemma fps_bounds:
  assumes n0: "n \<noteq> 0"
  obtains m e where "double_div (1, 0) (the (double_div (double_of_u32 n) (10000000, 0))) = Some (m, e)"
    and "double_div (double_of_u32 n) (10000000, 0) \<noteq> None"
    and "e < 0"
    and "double_val (m, e) \<le> 10000000 * (1 + 1 / 2 ^ 53) / (of_nat (unat n) * (1 - 1 / 2 ^ 53))"
    and "10000000 * (1 - 1 / 2 ^ 53) / (of_nat (unat n) * (1 + 1 / 2 ^ 53)) \<le> double_val (m, e)"
proof -
  define N where "N = unat n"
  have Npos: "0 < N" using n0 by (simp add: N_def unat_gt_0)
  have Nlt: "N < 2 ^ 32" using unsigned_less [of n, where 'a = nat] by (simp add: N_def)
  have Np: "(0::rat) < of_nat N" using Npos by simp
  define tx :: rat where "tx = of_nat N / 10000000"
  have txpos: "0 < tx" using Np by (simp add: tx_def)
  have T0: "(0::nat) < 10000000" by simp
  have lo: "2 powi (- 24) < (of_nat N / of_nat 10000000 :: rat)"
  proof -
    have "(1::rat) \<le> of_nat N" using Npos by simp
    then have "(1::rat) / 10000000 \<le> of_nat N / 10000000" by (simp add: divide_right_mono)
    moreover have "(2::rat) powi (- 24) < 1 / 10000000" by (simp add: power_int_minus field_simps)
    ultimately show ?thesis by simp
  qed
  have hi: "(of_nat N / of_nat 10000000 :: rat) < 2 powi 9"
  proof -
    have "(of_nat N :: rat) < of_nat (2 ^ 32)" using Nlt by (simp only: of_nat_less_iff)
    then have "(of_nat N :: rat) < 5120000000" by simp
    then show ?thesis by simp
  qed
  from double_div_defined [OF Npos T0 lo hi, of 0 0]
  obtain mx ex where x: "double_div (N, 0) (10000000, 0) = Some (mx, ex)"
    and ex1: "- 76 \<le> ex" and ex2: "ex < - 43"
    by auto
  note rx = double_div_relative [OF Npos T0 x]
  have vx: "tx * (1 - 1 / 2 ^ 53) \<le> double_val (mx, ex)"
    using relative_bounds(1) [OF rx(1)] by (simp add: double_val_def tx_def)
  have vxpos: "0 < double_val (mx, ex)"
  proof -
    have "0 < tx * (1 - 1 / 2 ^ 53)" using txpos by simp
    with vx show ?thesis by simp
  qed
  have vx2: "double_val (mx, ex) \<le> tx * (1 + 1 / 2 ^ 53)"
    using relative_bounds(2) [OF rx(1)] by (simp add: double_val_def tx_def)
  have mxpos: "0 < mx" using rx(2) by simp
  have one: "(0::nat) < 1" by simp
  have lo': "2 powi (- 54) < (of_nat 1 / of_nat mx :: rat)"
  proof -
    have "(of_nat mx :: rat) \<le> of_nat (2 ^ 53)" using rx(3) by (simp only: of_nat_le_iff)
    then have "(of_nat mx :: rat) < 2 ^ 54" by simp
    then have "1 / (2 ^ 54) < 1 / (of_nat mx :: rat)"
      using mxpos by (simp add: divide_strict_left_mono)
    then show ?thesis by (simp add: power_int_minus field_simps)
  qed
  have hi': "(of_nat 1 / of_nat mx :: rat) < 2 powi (- 51)"
  proof -
    have "(of_nat (2 ^ 52) :: rat) \<le> of_nat mx" using rx(2) by (simp only: of_nat_le_iff)
    then have "(2 ^ 51 :: rat) < of_nat mx" by simp
    then have "1 / (of_nat mx :: rat) < 1 / 2 ^ 51"
      by (simp add: divide_strict_left_mono)
    then show ?thesis by (simp add: power_int_minus field_simps)
  qed
  have elo: "- 1074 \<le> 0 - ex - 52 + (- 54)" using ex2 by simp
  have ehi: "0 - ex - 52 + (- 51) \<le> 971" using ex1 by simp
  from double_div_defined [OF one mxpos lo' hi' elo ehi]
  obtain my ey where y: "double_div (1, 0) (mx, ex) = Some (my, ey)"
    and ey2: "ey < 0 - ex - 52 + (- 51)"
    by blast
  note ry = double_div_relative [OF one mxpos y]
  define ty :: rat where "ty = 1 / double_val (mx, ex)"
  have typos: "0 < ty" using vxpos by (simp add: ty_def)
  have ry': "\<bar>double_val (my, ey) - ty\<bar> \<le> ty / 2 ^ 53"
    using ry(1) by (simp add: ty_def double_val_def)
  have ty1: "ty \<le> 1 / (tx * (1 - 1 / 2 ^ 53))"
    unfolding ty_def using vx txpos by (intro divide_left_mono) simp_all
  have ty2: "1 / (tx * (1 + 1 / 2 ^ 53)) \<le> ty"
    unfolding ty_def using vx2 vxpos txpos by (intro divide_left_mono) simp_all
  have up: "double_val (my, ey) \<le> 10000000 * (1 + 1 / 2 ^ 53) / (of_nat N * (1 - 1 / 2 ^ 53))"
  proof -
    have "double_val (my, ey) \<le> ty * (1 + 1 / 2 ^ 53)" by (rule relative_bounds(2) [OF ry'])
    also have "\<dots> \<le> 1 / (tx * (1 - 1 / 2 ^ 53)) * (1 + 1 / 2 ^ 53)"
      using ty1 by (intro mult_right_mono) simp_all
    also have "\<dots> = 10000000 * (1 + 1 / 2 ^ 53) / (of_nat N * (1 - 1 / 2 ^ 53))"
      using Np by (simp add: tx_def)
    finally show ?thesis .
  qed
  have down: "10000000 * (1 - 1 / 2 ^ 53) / (of_nat N * (1 + 1 / 2 ^ 53)) \<le> double_val (my, ey)"
  proof -
    have "10000000 * (1 - 1 / 2 ^ 53) / (of_nat N * (1 + 1 / 2 ^ 53))
        = 1 / (tx * (1 + 1 / 2 ^ 53)) * (1 - 1 / 2 ^ 53)"
      using Np by (simp add: tx_def)
    also have "\<dots> \<le> ty * (1 - 1 / 2 ^ 53)"
      using ty2 by (intro mult_right_mono) simp_all
    also have "\<dots> \<le> double_val (my, ey)" by (rule relative_bounds(1) [OF ry'])
    finally show ?thesis .
  qed
  have eyneg: "ey < 0" using ey2 ex1 by simp
  have x': "double_div (double_of_u32 n) (10000000, 0) = Some (mx, ex)"
    using x by (simp add: double_of_u32_def N_def)
  show ?thesis
    using y eyneg up down x' by (intro that [of my ey]) (simp_all add: N_def)
qed

lemma double_to_u32_floor:
  assumes e: "e < 0" and lo: "of_nat k \<le> double_val (m, e)" and hi: "double_val (m, e) < of_nat k + 1"
    and k: "k < 2 ^ 32"
  shows "double_to_u32 (m, e) = Some (of_nat k)"
proof -
  from e have "(2::rat) powi e = inverse (2 ^ nat (- e))"
    by (simp add: power_int_def power_one_over inverse_eq_divide)
  then have v: "double_val (m, e) = of_nat m / of_nat (2 ^ nat (- e))"
    by (simp add: double_val_def field_simps)
  have "\<lfloor>double_val (m, e)\<rfloor> = int k"
    using lo hi by (intro floor_unique) simp_all
  then have "int (m div 2 ^ nat (- e)) = int k"
    by (simp only: v floor_divide_of_nat_eq)
  then have "m div 2 ^ nat (- e) = k" by simp
  then show ?thesis using e k by (simp add: double_to_u32_def Let_def)
qed

lemma word_quotient: "n \<noteq> 0 \<Longrightarrow> (of_nat (10000000 div unat n) :: u32) = 10000000 div n"
proof -
  have "unat (10000000 div n) = unat (10000000 :: u32) div unat n" by (rule unat_div)
  then have "unat (10000000 div n) = 10000000 div unat n" by simp
  then have "(of_nat (10000000 div unat n) :: u32) = of_nat (unat (10000000 div n))" by simp
  then show ?thesis by simp
qed

lemma fps_nondivisor:
  assumes n0: "n \<noteq> 0" and nd: "10000000 mod unat n \<noteq> 0"
  shows "fps_of_interval n = Some (10000000 div n)"
proof -
  define N where "N = unat n"
  define k where "k = 10000000 div N"
  have Npos: "0 < N" using n0 by (simp add: N_def unat_gt_0)
  have Np: "(0::rat) < of_nat N" using Npos by simp
  have split: "10000000 = k * N + 10000000 mod N" by (simp add: k_def)
  have rem1: "1 \<le> 10000000 mod N" using nd by (simp add: N_def)
  have rem2: "10000000 mod N < N" using Npos by simp
  have above: "10000001 \<le> (k + 1) * N" using split rem2 by (simp add: algebra_simps)
  have below: "k * N + 1 \<le> 10000000" using split rem1 by linarith
  have klt: "k < 2 ^ 32"
  proof -
    have "k \<le> 10000000" by (simp add: k_def)
    then show ?thesis by simp
  qed
  from fps_bounds [OF n0] obtain m e
    where y: "double_div (1, 0) (the (double_div (double_of_u32 n) (10000000, 0))) = Some (m, e)"
      and x: "double_div (double_of_u32 n) (10000000, 0) \<noteq> None"
      and e: "e < 0"
      and up: "double_val (m, e) \<le> 10000000 * (1 + 1 / 2 ^ 53) / (of_nat N * (1 - 1 / 2 ^ 53))"
      and down: "10000000 * (1 - 1 / 2 ^ 53) / (of_nat N * (1 + 1 / 2 ^ 53)) \<le> double_val (m, e)"
    unfolding N_def by blast
  have hi: "double_val (m, e) < of_nat k + 1"
  proof -
    have "(10000000 :: rat) * (1 + 1 / 2 ^ 53) < 10000001 * (1 - 1 / 2 ^ 53)" by simp
    then have "10000000 * (1 + 1 / 2 ^ 53) / (of_nat N * (1 - 1 / 2 ^ 53)) < 10000001 / (of_nat N :: rat)"
      using Np by (simp add: field_simps)
    also have "\<dots> \<le> of_nat ((k + 1) * N) / of_nat N"
    proof -
      have "(of_nat 10000001 :: rat) \<le> of_nat ((k + 1) * N)"
        using above by (simp only: of_nat_le_iff)
      then show ?thesis using Np by (simp add: divide_right_mono)
    qed
    also have "\<dots> = of_nat k + 1" using Np by (simp add: field_simps)
    finally show ?thesis using up by simp
  qed
  have lo: "of_nat k \<le> double_val (m, e)"
  proof -
    have "(of_nat k :: rat) = of_nat (k * N) / of_nat N" using Np by simp
    also have "\<dots> \<le> 9999999 / of_nat N"
    proof -
      have "k * N \<le> 9999999" using below by simp
      then have "(of_nat (k * N) :: rat) \<le> of_nat 9999999" by (simp only: of_nat_le_iff)
      then show ?thesis using Np by (simp add: field_simps)
    qed
    also have "\<dots> \<le> 10000000 * (1 - 1 / 2 ^ 53) / (of_nat N * (1 + 1 / 2 ^ 53))"
    proof -
      have "(9999999 :: rat) * (1 + 1 / 2 ^ 53) \<le> 10000000 * (1 - 1 / 2 ^ 53)" by simp
      then show ?thesis using Np by (simp add: field_simps)
    qed
    finally show ?thesis using down by simp
  qed
  from x obtain xv where xv: "double_div (double_of_u32 n) (10000000, 0) = Some xv" by auto
  have "fps_of_interval n = double_to_u32 (m, e)"
    using y by (simp add: fps_of_interval_def xv)
  also have "\<dots> = Some (of_nat k)" by (rule double_to_u32_floor [OF e lo hi klt])
  also have "of_nat k = 10000000 div n"
    unfolding k_def N_def by (rule word_quotient [OF n0])
  finally show ?thesis .
qed

lemma prime_power_divisors:
  fixes p :: nat
  assumes pr: "\<And>x. x dvd p \<Longrightarrow> x = 1 \<or> x = p" and p1: "1 < p"
  shows "c dvd p ^ k \<Longrightarrow> \<exists>j\<le>k. c = p ^ j"
proof (induction k arbitrary: c)
  case 0
  then show ?case by simp
next
  case (Suc k)
  show ?case
  proof (cases "p dvd c")
    case True
    then obtain c' where c: "c = p * c'" ..
    with Suc.prems have "p * c' dvd p * p ^ k" by simp
    then have "c' dvd p ^ k" using p1 by simp
    from Suc.IH [OF this] obtain j where "j \<le> k" and "c' = p ^ j" by blast
    then show ?thesis using c by (intro exI [of _ "Suc j"]) simp
  next
    case False
    have "gcd c p dvd p" by simp
    then have "gcd c p = 1 \<or> gcd c p = p" by (rule pr)
    moreover have "gcd c p \<noteq> p" using False by (metis gcd_dvd1)
    ultimately have cop: "coprime c p" by (simp add: coprime_iff_gcd_eq_1)
    from Suc.prems have "c dvd p * p ^ k" by simp
    then have "c dvd p ^ k" using cop by (simp add: coprime_dvd_mult_right_iff)
    from Suc.IH [OF this] obtain j where "j \<le> k" and "c = p ^ j" by blast
    then show ?thesis by (intro exI [of _ j]) simp
  qed
qed

lemma divisors_2: "x dvd (2::nat) \<Longrightarrow> x = 1 \<or> x = 2"
proof -
  assume d: "x dvd 2"
  then have "x \<le> 2" by (simp add: dvd_imp_le)
  then consider "x = 0" | "x = 1" | "x = 2" by linarith
  then show ?thesis using d by cases simp_all
qed

lemma divisors_5: "x dvd (5::nat) \<Longrightarrow> x = 1 \<or> x = 5"
proof -
  assume d: "x dvd 5"
  then have "x \<le> 5" by (simp add: dvd_imp_le)
  then consider "x = 0" | "x = 1" | "x = 2" | "x = 3" | "x = 4" | "x = 5" by linarith
  then show ?thesis using d by cases simp_all
qed

lemma upto_7: "j \<le> 7 \<Longrightarrow> j \<in> {0, 1, 2, 3, 4, 5, 6, 7::nat}"
  by auto

lemma divisors_10000000:
  assumes "x dvd (10000000::nat)"
  shows "x \<in> {1, 2, 4, 5, 8, 10, 16, 20, 25, 32, 40, 50, 64, 80, 100, 125, 128, 160, 200, 250, 320, 400, 500, 625, 640, 800, 1000, 1250, 1600, 2000, 2500, 3125, 3200, 4000, 5000, 6250, 8000, 10000, 12500, 15625, 16000, 20000, 25000, 31250, 40000, 50000, 62500, 78125, 80000, 100000, 125000, 156250, 200000, 250000, 312500, 400000, 500000, 625000, 1000000, 1250000, 2000000, 2500000, 5000000, 10000000}"
proof -
  have "x dvd 2 ^ 7 * 5 ^ 7" using assms by simp
  then obtain a b where x: "x = a * b" and a: "a dvd 2 ^ 7" and b: "b dvd 5 ^ 7"
    by (rule dvd_productE)
  from prime_power_divisors [OF divisors_2 _ a] obtain i where i: "i \<le> 7" and ai: "a = 2 ^ i"
    by auto
  from prime_power_divisors [OF divisors_5 _ b] obtain j where j: "j \<le> 7" and bj: "b = 5 ^ j"
    by auto
  from upto_7 [OF i] have "a \<in> {1, 2, 4, 8, 16, 32, 64, 128}"
    unfolding ai by auto
  moreover from upto_7 [OF j] have "b \<in> {1, 5, 25, 125, 625, 3125, 15625, 78125}"
    unfolding bj by auto
  ultimately show ?thesis
    unfolding x by auto
qed

lemma fps_divisors_0:
  "list_all (\<lambda>N. fps_of_interval (of_nat N) = Some (10000000 div of_nat N)) [1, 5, 125, 625, 3125, 15625, 78125]"
  by (simp add: fps_of_interval_def double_div_def double_of_u32_def double_to_u32_def
      div_round_even_def bit_length.simps Let_def)

lemma fps_divisors_1:
  "list_all (\<lambda>N. fps_of_interval (of_nat N) = Some (10000000 div of_nat N)) [2, 10, 250, 1250, 6250, 31250, 156250]"
  by (simp add: fps_of_interval_def double_div_def double_of_u32_def double_to_u32_def
      div_round_even_def bit_length.simps Let_def)

lemma fps_divisors_2:
  "list_all (\<lambda>N. fps_of_interval (of_nat N) = Some (10000000 div of_nat N)) [4, 20, 500, 2500, 12500, 62500, 312500]"
  by (simp add: fps_of_interval_def double_div_def double_of_u32_def double_to_u32_def
      div_round_even_def bit_length.simps Let_def)

lemma fps_divisors_3:
  "list_all (\<lambda>N. fps_of_interval (of_nat N) = Some (10000000 div of_nat N)) [8, 40, 1000, 5000, 25000, 125000, 625000]"
  by (simp add: fps_of_interval_def double_div_def double_of_u32_def double_to_u32_def
      div_round_even_def bit_length.simps Let_def)

lemma fps_divisors_4:
  "list_all (\<lambda>N. fps_of_interval (of_nat N) = Some (10000000 div of_nat N)) [16, 80, 2000, 10000, 50000, 250000, 1250000]"
  by (simp add: fps_of_interval_def double_div_def double_of_u32_def double_to_u32_def
      div_round_even_def bit_length.simps Let_def)

lemma fps_divisors_5:
  "list_all (\<lambda>N. fps_of_interval (of_nat N) = Some (10000000 div of_nat N)) [32, 160, 4000, 20000, 100000, 500000, 2500000]"
  by (simp add: fps_of_interval_def double_div_def double_of_u32_def double_to_u32_def
      div_round_even_def bit_length.simps Let_def)

lemma fps_divisors_6:
  "list_all (\<lambda>N. fps_of_interval (of_nat N) = Some (10000000 div of_nat N)) [64, 320, 8000, 40000, 200000, 1000000, 5000000]"
  by (simp add: fps_of_interval_def double_div_def double_of_u32_def double_to_u32_def
      div_round_even_def bit_length.simps Let_def)

lemma fps_divisors_7:
  "list_all (\<lambda>N. fps_of_interval (of_nat N) = Some (10000000 div of_nat N)) [128, 640, 16000, 80000, 400000, 2000000, 10000000]"
  by (simp add: fps_of_interval_def double_div_def double_of_u32_def double_to_u32_def
      div_round_even_def bit_length.simps Let_def)

text \<open>
  Outside eight intervals, and for every interval but 0, line 405 computes the integer
  quotient of 10000000 by the interval.
\<close>

lemma fps_is_quotient:
  assumes n0: "n \<noteq> 0" and nb: "unat n \<notin> {25, 50, 100, 200, 400, 800, 1600, 3200}"
  shows "fps_of_interval n = Some (10000000 div n)"
proof (cases "10000000 mod unat n = 0")
  case False
  with n0 show ?thesis by (rule fps_nondivisor)
next
  case True
  then have "unat n dvd 10000000" by (simp add: dvd_eq_mod_eq_0)
  from divisors_10000000 [OF this] nb
  have "unat n \<in> set [1, 2, 4, 5, 8, 10, 16, 20, 32, 40, 64, 80, 125, 128, 160, 250, 320, 500, 625, 640, 1000, 1250, 2000, 2500, 3125, 4000, 5000, 6250, 8000, 10000, 12500, 15625, 16000, 20000, 25000, 31250, 40000, 50000, 62500, 78125, 80000, 100000, 125000, 156250, 200000, 250000, 312500, 400000, 500000, 625000, 1000000, 1250000, 2000000, 2500000, 5000000, 10000000]"
    by auto
  then have "fps_of_interval (of_nat (unat n)) = Some (10000000 div of_nat (unat n))"
    using fps_divisors_0 fps_divisors_1 fps_divisors_2 fps_divisors_3 fps_divisors_4 fps_divisors_5 fps_divisors_6 fps_divisors_7
    by (auto simp only: list_all_iff set_append set_simps)
  then show ?thesis by simp
qed

section \<open>The committed frame rate (C4)\<close>

lemma process_data_commit:
  assumes "control dev = uint UVC_VS_COMMIT_CONTROL"
    and "uvc_events_process_data dev data = Some dev1"
  shows "\<exists>pixfmt fps. stream dev1 = stream dev @ [Set_format pixfmt, Set_frame_rate fps] \<and>
           fps_of_interval (dwFrameInterval (commit dev1)) = Some fps"
  using assms
  by (auto simp: uvc_events_process_data_def Let_def UVC_VS_COMMIT_CONTROL_def
      UVC_VS_PROBE_CONTROL_def split: option.splits if_splits)

lemma fps_100: "fps_of_interval 100 = Some 99999"
  by (simp add: fps_of_interval_def double_div_def double_of_u32_def double_to_u32_def
      div_round_even_def bit_length.simps Let_def)

lemma fps_333333: "fps_of_interval 333333 = Some 30"
  by (simp add: fps_of_interval_def double_div_def double_of_u32_def double_to_u32_def
      div_round_even_def bit_length.simps Let_def)

lemma fps_script_intervals:
  "map fps_of_interval [166666, 200000, 333333, 500000] = [Some 60, Some 50, Some 30, Some 20]"
  by (simp add: fps_of_interval_def double_div_def double_of_u32_def double_to_u32_def
      div_round_even_def bit_length.simps Let_def)

lemma fps_off_by_one:
  "map fps_of_interval [25, 50, 100, 200, 400, 800, 1600, 3200] =
     [Some 399999, Some 199999, Some 99999, Some 49999, Some 24999, Some 12499, Some 6249, Some 3124]"
  by (simp add: fps_of_interval_def double_div_def double_of_u32_def double_to_u32_def
      div_round_even_def bit_length.simps Let_def)

lemma fps_slow: "fps_of_interval 50000000 = Some 0"
  by (simp add: fps_of_interval_def double_div_def double_of_u32_def double_to_u32_def
      div_round_even_def bit_length.simps Let_def)

lemma payload_fields:
  "rd_data (payload f r ival) ! 2 = f"
  "rd_data (payload f r ival) ! 3 = r"
  "load_le32 (rd_data (payload f r ival)) 4 = ival"
  by (simp_all add: payload_def le32_def load_le32_def le32_bits)

lemma config_fast_ok: "config_ok config_fast"
  by (simp add: config_ok_def format_ok_def frame_ok_def config_fast_def)

lemma fill_fast:
  "uvc_fill_streaming_control config_fast 1 1 ival =
     Some \<lparr>bmHint = 1, bFormatIndex = 1, bFrameIndex = 1, dwFrameInterval = 100,
           wKeyFrameRate = 0, wPFrameRate = 0, wCompQuality = 0, wCompWindowSize = 0,
           wDelay = 0, dwMaxVideoFrameSize = 460800, dwMaxPayloadTransferSize = 2048,
           dwClockFrequency = 0, bmFramingInfo = 3, bPreferedVersion = 1,
           bMinVersion = 0, bMaxVersion = 1\<rparr>"
proof -
  note sel = selected_first [OF config_fast_ok]
  show ?thesis
    using fill_selected [OF sel(1) sel(2) sel(3), of ival]
    by (simp add: config_fast_def clamp_def split: option.splits)
qed

lemma clamp_byte:
  assumes "1 \<le> hi"
  shows "uint (ucast (clamp (ucast (b::u8)) 1 hi) :: u8) = sint (clamp (ucast b) 1 hi)"
proof -
  define c where "c = clamp (ucast b) 1 hi"
  have b8: "unat b < 2 ^ 8" using unsigned_less [of b, where 'a = nat] by simp
  then have "unat b < 2 ^ 32" by simp
  then have "unat (ucast b :: u32) = unat b"
    by (simp add: unsigned_ucast_eq take_bit_nat_eq_self)
  with b8 have b: "unat (ucast b :: u32) \<le> 255" by simp
  have "unat c \<le> 255"
    using b assms unfolding c_def clamp_def Let_def
    by (auto simp: word_le_nat_alt word_less_nat_alt)
  then have "unat (ucast c :: u8) = unat c" by (rule unat_ucast_u8)
  then have "uint (ucast c :: u8) = int (unat c)" by (simp only: uint_nat)
  moreover have "sint c = int (unat c)"
    using \<open>unat c \<le> 255\<close> by (intro sint_small) simp
  ultimately show ?thesis by (simp add: c_def)
qed

text \<open>
  On a DATA event processed while COMMIT is pending, on a well-formed configuration, when
  the committed \<^verbatim>\<open>dwFrameInterval\<close> is not 0 and is none of 25, 50, 100, 200, 400,
  800, 1600 and 3200, the frame rate passed to \<^verbatim>\<open>uvc_stream_set_frame_rate\<close> is
  10000000 divided by the committed \<^verbatim>\<open>dwFrameInterval\<close> in integer division: the
  quotient is what line 405 computes wherever the rounding of the two divisions in
  \<^verbatim>\<open>double\<close> does not get in the way.
\<close>

lemma process_data_frame_rate:
  assumes ok: "config_ok (fc dev)"
    and c: "control dev = uint UVC_VS_COMMIT_CONTROL"
    and fill: "uvc_fill_streaming_control (fc dev) (ucast (rd_data data ! 2))
                 (ucast (rd_data data ! 3)) (load_le32 (rd_data data) 4) = Some target"
    and nz: "dwFrameInterval target \<noteq> 0"
    and nb: "unat (dwFrameInterval target) \<notin> {25, 50, 100, 200, 400, 800, 1600, 3200}"
  shows "\<exists>dev1 pixfmt. uvc_events_process_data dev data = Some dev1 \<and> commit dev1 = target \<and>
           stream dev1 = stream dev @
             [Set_format pixfmt, Set_frame_rate (10000000 div dwFrameInterval target)]"
proof -
  define iformat :: u32 where "iformat = ucast (rd_data data ! 2)"
  define iframe :: u32 where "iframe = ucast (rd_data data ! 3)"
  define ival where "ival = load_le32 (rd_data data) 4"
  note sf = selected_format_ok [OF ok, of iformat]
  define format where "format = formats (fc dev) ! (unat (clamp iformat 1 (num_formats (fc dev))) - 1)"
  note sr = selected_frame_of_format [OF sf(1) sf(2), of iframe, folded format_def]
  define frame where "frame = frames format ! (unat (clamp iframe 1 (num_frames format)) - 1)"
  from ok have len: "unat (num_formats (fc dev)) = length (formats (fc dev))"
    and ne: "formats (fc dev) \<noteq> []" by (simp_all add: config_ok_def)
  have n1: "1 \<le> num_formats (fc dev)" using len ne by (simp add: word_le_nat_alt Suc_le_eq)
  from sf(2) have len': "unat (num_frames format) = length (frames format)"
    and ne': "frames format \<noteq> []" by (simp_all add: format_ok_def format_def)
  have n1': "1 \<le> num_frames format" using len' ne' by (simp add: word_le_nat_alt Suc_le_eq)
  have t: "target = \<lparr>bmHint = 1,
           bFormatIndex = ucast (clamp iformat 1 (num_formats (fc dev))),
           bFrameIndex = ucast (clamp iframe 1 (num_frames format)),
           dwFrameInterval = (case find (\<lambda>x. ival \<le> x) (intervals frame) of
                                None \<Rightarrow> last (intervals frame) | Some x \<Rightarrow> x),
           wKeyFrameRate = 0, wPFrameRate = 0, wCompQuality = 0, wCompWindowSize = 0,
           wDelay = 0,
           dwMaxVideoFrameSize =
             (if fcc format = V4L2_PIX_FMT_YUYV \<or> fcc format = V4L2_PIX_FMT_MJPEG
              then width frame * height frame * 2 else 0),
           dwMaxPayloadTransferSize = streaming_wMaxPacketSize (fc dev),
           dwClockFrequency = 0, bmFramingInfo = 3, bPreferedVersion = 1,
           bMinVersion = 0, bMaxVersion = 1\<rparr>"
    using fill_selected [OF sf(1) [folded format_def] sr(1) [folded frame_def] sr(2) [folded frame_def], of ival]
      fill
    by (simp add: iformat_def iframe_def ival_def)
  have r1: "array_read (formats (fc dev)) (uint (bFormatIndex target) - 1) = Some format"
    using sf(1) [folded format_def]
    by (simp add: t selected_format_def iformat_def clamp_byte [OF n1])
  have r2: "array_read (frames format) (uint (bFrameIndex target) - 1) = Some frame"
    using sr(1) [folded frame_def] sf(1) [folded format_def]
    by (simp add: t selected_frame_def iframe_def clamp_byte [OF n1'])
  have fps: "fps_of_interval (dwFrameInterval target) = Some (10000000 div dwFrameInterval target)"
    using nz nb by (rule fps_is_quotient)
  have cc: "uint UVC_VS_COMMIT_CONTROL \<noteq> uint UVC_VS_PROBE_CONTROL"
    by (simp add: UVC_VS_COMMIT_CONTROL_def UVC_VS_PROBE_CONTROL_def)
  show ?thesis
    using fill r1 r2 fps c cc
    by (simp add: uvc_events_process_data_def Let_def)
qed

lemma process_data_frame_rate_30:
  "config_ok (fc ((opened_device gadget_config)\<lparr>control := 2\<rparr>)) \<and>
   control ((opened_device gadget_config)\<lparr>control := 2\<rparr>) = uint UVC_VS_COMMIT_CONTROL \<and>
   uvc_fill_streaming_control (fc ((opened_device gadget_config)\<lparr>control := 2\<rparr>))
       (ucast (rd_data (payload 1 2 250000) ! 2)) (ucast (rd_data (payload 1 2 250000) ! 3))
       (load_le32 (rd_data (payload 1 2 250000)) 4) =
     Some \<lparr>bmHint = 1, bFormatIndex = 1, bFrameIndex = 2, dwFrameInterval = 333333,
           wKeyFrameRate = 0, wPFrameRate = 0, wCompQuality = 0, wCompWindowSize = 0,
           wDelay = 0, dwMaxVideoFrameSize = 1843200, dwMaxPayloadTransferSize = 2048,
           dwClockFrequency = 0, bmFramingInfo = 3, bPreferedVersion = 1,
           bMinVersion = 0, bMaxVersion = 1\<rparr> \<and>
   (333333 :: u32) \<noteq> 0 \<and>
   unat (333333 :: u32) \<notin> {25, 50, 100, 200, 400, 800, 1600, 3200} \<and>
   (\<exists>dev1 pixfmt.
      uvc_events_process_data ((opened_device gadget_config)\<lparr>control := 2\<rparr>) (payload 1 2 250000)
        = Some dev1 \<and>
      dwFrameInterval (commit dev1) = 333333 \<and>
      stream dev1 = [Set_format pixfmt, Set_frame_rate 30])"
proof -
  define dev where "dev = (opened_device gadget_config)\<lparr>control := 2\<rparr>"
  define blk where "blk = \<lparr>bmHint = 1, bFormatIndex = 1, bFrameIndex = 2, dwFrameInterval = 333333,
           wKeyFrameRate = 0, wPFrameRate = 0, wCompQuality = 0, wCompWindowSize = 0,
           wDelay = 0, dwMaxVideoFrameSize = 1843200, dwMaxPayloadTransferSize = 2048,
           dwClockFrequency = 0, bmFramingInfo = 3, bPreferedVersion = 1,
           bMinVersion = 0, bMaxVersion = 1\<rparr>"
  have f: "fc dev = gadget_config" by (simp add: dev_def opened_device_def)
  have ok: "config_ok (fc dev)" by (simp add: f gadget_config_ok)
  have c: "control dev = uint UVC_VS_COMMIT_CONTROL"
    by (simp add: dev_def UVC_VS_COMMIT_CONTROL_def)
  have "uvc_fill_streaming_control gadget_config 1 2 250000 = Some blk"
    using fill_selected [OF gadget_format_1 gadget_selected_1_2 frame_720p_ok, of 250000]
    by (simp add: blk_def gadget_config_def format_yuyv_def frame_720p_def clamp_def)
  then have fill: "uvc_fill_streaming_control (fc dev) (ucast (rd_data (payload 1 2 250000) ! 2))
       (ucast (rd_data (payload 1 2 250000) ! 3)) (load_le32 (rd_data (payload 1 2 250000)) 4)
       = Some blk"
    by (simp add: f payload_fields)
  have nz: "dwFrameInterval blk \<noteq> 0" by (simp add: blk_def)
  have nb: "unat (dwFrameInterval blk) \<notin> {25, 50, 100, 200, 400, 800, 1600, 3200}"
    by (simp add: blk_def)
  have s: "stream dev = []" by (simp add: dev_def opened_device_def)
  have q: "(10000000 :: u32) div 333333 = 30" by simp
  from process_data_frame_rate [OF ok c fill nz nb]
  have "\<exists>dev1 pixfmt. uvc_events_process_data dev (payload 1 2 250000) = Some dev1 \<and>
      dwFrameInterval (commit dev1) = 333333 \<and>
      stream dev1 = [Set_format pixfmt, Set_frame_rate 30]"
    by (auto simp: s blk_def q)
  with ok c fill nz nb show ?thesis
    unfolding dev_def [symmetric] by (simp add: blk_def)
qed

text \<open>
  C4. The claim says that the frame rate passed to \<^verbatim>\<open>uvc_stream_set_frame_rate\<close>
  on a DATA event with COMMIT pending is 10000000 divided by the committed
  \<^verbatim>\<open>dwFrameInterval\<close> in integer division. For the committed interval 100 the code
  passes 99999, while 10000000 divided by 100 is 100000: line 405 takes the quotient as
  \<^verbatim>\<open>1.0 / (100 / 10000000.0)\<close> in \<^verbatim>\<open>double\<close>, where 100 / 10000000.0 is
  rounded up, its reciprocal falls just below 100000, and the conversion to
  \<^verbatim>\<open>unsigned int\<close> truncates.
\<close>

theorem C4_frame_rate_interval_100:
  "map_option stream
     (run_gadget config_fast
        [UVC_EVENT_SETUP \<lparr>bRequestType = 0x21, bRequest = UVC_SET_CUR, wValue = 0x0200,
                           wIndex = 0x0001, wLength = 34\<rparr>,
         UVC_EVENT_DATA (payload 1 1 100)]) =
     Some [Set_format \<lparr>pix_width = 640, pix_height = 360, pix_pixelformat = V4L2_PIX_FMT_YUYV,
                       pix_field = 1, pix_sizeimage = 0\<rparr>,
           Set_frame_rate 99999] \<and>
   map_option commit
     (run_gadget config_fast
        [UVC_EVENT_SETUP \<lparr>bRequestType = 0x21, bRequest = UVC_SET_CUR, wValue = 0x0200,
                           wIndex = 0x0001, wLength = 34\<rparr>,
         UVC_EVENT_DATA (payload 1 1 100)]) =
     Some \<lparr>bmHint = 1, bFormatIndex = 1, bFrameIndex = 1, dwFrameInterval = 100,
           wKeyFrameRate = 0, wPFrameRate = 0, wCompQuality = 0, wCompWindowSize = 0,
           wDelay = 0, dwMaxVideoFrameSize = 460800, dwMaxPayloadTransferSize = 2048,
           dwClockFrequency = 0, bmFramingInfo = 3, bPreferedVersion = 1,
           bMinVersion = 0, bMaxVersion = 1\<rparr> \<and>
   (10000000 :: u32) div 100 = 100000"
proof -
  define blk where "blk = \<lparr>bmHint = 1, bFormatIndex = 1, bFrameIndex = 1, dwFrameInterval = 100,
           wKeyFrameRate = 0, wPFrameRate = 0, wCompQuality = 0, wCompWindowSize = 0,
           wDelay = 0, dwMaxVideoFrameSize = 460800, dwMaxPayloadTransferSize = 2048,
           dwClockFrequency = 0, bmFramingInfo = 3, bPreferedVersion = 1,
           bMinVersion = 0, bMaxVersion = 1\<rparr>"
  define dev0 where "dev0 = (opened_device config_fast)\<lparr>probe := blk, commit := blk\<rparr>"
  have fc0: "fc dev0 = config_fast" by (simp add: dev0_def opened_device_def)
  have i: "uvc_events_init (opened_device config_fast) = Some dev0"
    by (simp add: uvc_events_init_def dev0_def blk_def opened_device_def fill_fast)
  have q: "streaming_request (fc dev0)
     \<lparr>bRequestType = 0x21, bRequest = UVC_SET_CUR, wValue = 0x0200, wIndex = 0x0001, wLength = 34\<rparr>
     UVC_SET_CUR UVC_VS_COMMIT_CONTROL"
    unfolding fc0
    by (simp add: streaming_request_def config_fast_def USB_TYPE_MASK_def USB_TYPE_CLASS_def
        USB_RECIP_MASK_def USB_RECIP_INTERFACE_def UVC_VS_COMMIT_CONTROL_def)
  have s: "uvc_events_process dev0 (UVC_EVENT_SETUP
      \<lparr>bRequestType = 0x21, bRequest = UVC_SET_CUR, wValue = 0x0200, wIndex = 0x0001, wLength = 34\<rparr>)
      = Some (dev0\<lparr>control := 2\<rparr>, Some (initial_resp\<lparr>rd_length := 34\<rparr>))"
    by (simp add: setup_streaming [OF q] uvc_events_process_streaming_def
        UVC_VS_COMMIT_CONTROL_def UVC_VS_PROBE_CONTROL_def Let_def)
  have d: "uvc_events_process_data (dev0\<lparr>control := 2\<rparr>) (payload 1 1 100) =
      Some (dev0\<lparr>control := 2, commit := blk, dev_fcc := V4L2_PIX_FMT_YUYV, dev_width := 640,
              dev_height := 360,
              stream := [Set_format \<lparr>pix_width = 640, pix_height = 360,
                            pix_pixelformat = V4L2_PIX_FMT_YUYV, pix_field = 1, pix_sizeimage = 0\<rparr>,
                         Set_frame_rate 99999]\<rparr>)"
    by (simp add: uvc_events_process_data_def payload_fields fc0 fill_fast blk_def [symmetric]
          UVC_VS_COMMIT_CONTROL_def UVC_VS_PROBE_CONTROL_def Let_def)
       (simp add: blk_def config_fast_def array_read_def fps_100 yuyv_neq_mjpeg [symmetric]
          V4L2_FIELD_NONE_def dev0_def opened_device_def)
  have d': "uvc_events_process (dev0\<lparr>control := 2\<rparr>) (UVC_EVENT_DATA (payload 1 1 100)) =
      Some (dev0\<lparr>control := 2, commit := blk, dev_fcc := V4L2_PIX_FMT_YUYV, dev_width := 640,
              dev_height := 360,
              stream := [Set_format \<lparr>pix_width = 640, pix_height = 360,
                            pix_pixelformat = V4L2_PIX_FMT_YUYV, pix_field = 1, pix_sizeimage = 0\<rparr>,
                         Set_frame_rate 99999]\<rparr>, None)"
    by (simp add: d)
  show ?thesis
    by (simp add: run_gadget_def i s d' blk_def del: uvc_events_process.simps)
qed

end
